theory Spec2Isabelle
  imports Main "HOL-Library.AList" "HOL-Library.Sublist"
begin

section \<open>The in-memory URL registry (models/urlStorage.js)\<close>

text \<open>
  The class \<open>URLStorage\<close> owns two JavaScript \<open>Map\<close>s: \<open>urls\<close> (shortcode to URL
  record) and \<open>clicks\<close> (shortcode to the array of click records). A \<open>Map\<close> keeps its
  entries in insertion order, \<open>set\<close> on a present key replaces the value in place and on
  an absent key appends an entry, \<open>delete\<close> removes the entry. They are modelled as
  association lists with \<open>map_of\<close> (\<open>get\<close>), \<open>AList.update\<close> (\<open>set\<close>) and
  \<open>AList.delete\<close> (\<open>delete\<close>).

  A \<open>Date\<close> is modelled by its time value, an integer number of milliseconds since the
  epoch. The ISO-8601 strings the code stores (\<open>toISOString\<close>) and parses back
  (\<open>new Date(string)\<close>) render a time value without loss, so the stored fields
  \<open>createdAt\<close>, \<open>expiresAt\<close> and \<open>timestamp\<close> hold the time value itself.

  What the environment supplies is an explicit argument of the operation that reads it:
  the clock reading \<open>now\<close> (\<open>new Date()\<close>), the identifier \<open>uuid\<close> (\<open>uuidv4()\<close>) and the
  sequence \<open>g\<close> of future random draws (\<open>Math.random()\<close>). Calls of the logger are left
  out: they do not touch the two maps.

  A string is a list of characters. Shortcodes are only compared with each other,
  measured, and tested against an ASCII character class that rejects every other
  character, so nothing depends on how characters outside ASCII are encoded.
\<close>

subsection \<open>Data\<close>

record url_data =
  id_uuid :: string
  originalUrl :: string
  shortcode :: string
  createdAt :: int
  expiresAt :: int
  validityMinutes :: int
  isActive :: bool

text \<open>The argument \<open>clickData\<close> of \<open>recordClick\<close>: each property may be missing.\<close>

record click_data =
  cd_ip :: "string option"
  cd_userAgent :: "string option"
  cd_referrer :: "string option"
  cd_location :: "string option"

record click_record =
  click_id :: string
  timestamp :: int
  ip :: "string option"
  userAgent :: "string option"
  referrer :: string
  location :: string

text \<open>One element of the \<open>clicks\<close> array that \<open>getStatistics\<close> returns.\<close>

record click_view =
  v_timestamp :: int
  v_referrer :: string
  v_location :: string
  v_userAgent :: "string option"

record statistics =
  s_shortcode :: string
  s_originalUrl :: string
  s_createdAt :: int
  s_expiresAt :: int
  s_totalClicks :: nat
  s_clicks :: "click_view list"

text \<open>One element of the array that \<open>getAllURLs\<close> returns: \<open>{...urlData, totalClicks}\<close>.\<close>

record url_summary = url_data +
  totalClicks :: nat

record storage =
  urls :: "(string \<times> url_data) list"
  clicks :: "(string \<times> click_record list) list"

datatype error = InvalidShortcodeFormat | ShortcodeAlreadyExists | RangeError

text \<open>The constructor: two empty maps.\<close>

definition constructor :: storage where
  "constructor = \<lparr>urls = [], clicks = []\<rparr>"

subsection \<open>Dates\<close>

text \<open>
  \<open>new Date(t)\<close> holds the time value \<open>t\<close> only within 8.64e15 milliseconds of the
  epoch and is an invalid date otherwise; \<open>toISOString\<close> of an invalid date throws
  a \<open>RangeError\<close>.
\<close>

definition valid_time :: "int \<Rightarrow> bool" where
  "valid_time t = (\<bar>t\<bar> \<le> 8640000000000000)"

subsection \<open>Shortcode generator\<close>

type_synonym rng = "nat \<Rightarrow> nat"

definition chars :: string where
  "chars = ''abcdefghijklmnopqrstuvwxyzABCDEFGHIJKLMNOPQRSTUVWXYZ0123456789''"

text \<open>
  \<open>Math.floor(Math.random() * n)\<close> is an index below \<open>n\<close>. The next draw of the sequence
  \<open>g\<close> is \<open>g 0\<close>, reduced modulo \<open>n\<close> so that every sequence is a sequence of legal
  draws; the rest of the sequence is \<open>g \<circ> Suc\<close>.
\<close>

definition random_index :: "nat \<Rightarrow> rng \<Rightarrow> nat \<times> rng" where
  "random_index n g = (g 0 mod n, g \<circ> Suc)"

text \<open>\<open>s.charAt(i)\<close>: the one-character string at index \<open>i\<close>, the empty string out of range.\<close>

definition charAt :: "string \<Rightarrow> nat \<Rightarrow> string" where
  "charAt s i = (if i < length s then [s ! i] else [])"

text \<open>The \<open>for\<close> loop of \<open>generateShortcode\<close>; the first argument counts the iterations left.\<close>

primrec generateShortcode_loop :: "nat \<Rightarrow> rng \<Rightarrow> string \<Rightarrow> string \<times> rng" where
  "generateShortcode_loop 0 g result = (result, g)"
| "generateShortcode_loop (Suc n) g result =
     (let (i, g') = random_index (length chars) g
      in generateShortcode_loop n g' (result @ charAt chars i))"

definition generateShortcode :: "nat \<Rightarrow> rng \<Rightarrow> string \<times> rng" where
  "generateShortcode len g = generateShortcode_loop len g []"

definition shortcodeExists :: "storage \<Rightarrow> string \<Rightarrow> bool" where
  "shortcodeExists st sc = (map_of (urls st) sc \<noteq> None)"

definition maxAttempts :: nat where
  "maxAttempts = 100"

text \<open>
  The \<open>do ... while\<close> loop of \<open>generateUniqueShortcode\<close>, entered with the number of
  attempts made so far. It returns the shortcode, the attempts and the remaining draws.
\<close>

function generateUnique_loop :: "storage \<Rightarrow> rng \<Rightarrow> nat \<Rightarrow> string \<times> nat \<times> rng" where
  "generateUnique_loop st g attempts =
     (let (sc, g1) = generateShortcode 6 g;
          attempts' = attempts + 1
      in if attempts' > maxAttempts
         then (let (sc8, g2) = generateShortcode 8 g1 in (sc8, attempts', g2))
         else if shortcodeExists st sc then generateUnique_loop st g1 attempts'
         else (sc, attempts', g1))"
  by pat_completeness auto
termination
  by (relation "measure (\<lambda>(st, g, attempts). Suc maxAttempts - attempts)") auto

declare generateUnique_loop.simps [simp del]

definition generateUniqueShortcode :: "storage \<Rightarrow> rng \<Rightarrow> string \<times> nat \<times> rng" where
  "generateUniqueShortcode st g = generateUnique_loop st g 0"

subsection \<open>Shortcode validation\<close>

text \<open>The character class \<open>[a-zA-Z0-9]\<close>.\<close>

definition alnum :: "char \<Rightarrow> bool" where
  "alnum c = (let n = (of_char c :: nat)
              in (97 \<le> n \<and> n \<le> 122) \<or> (65 \<le> n \<and> n \<le> 90) \<or> (48 \<le> n \<and> n \<le> 57))"

text \<open>
  The argument \<open>customShortcode\<close> is whatever value the caller passes: the route handler
  passes \<open>null\<close> or the \<open>shortcode\<close> property of the JSON request body, trimmed when it is
  a string and as it is otherwise. Such a value is \<open>null\<close>, a string, a number, a boolean,
  or an object (arrays included). An omitted argument is \<open>null\<close> by the parameter default.
  A number is represented by an integer: the code only asks whether it is falsy and
  what its type is.
\<close>

datatype js_value = JNull | JStr string | JNum int | JBool bool | JObj

text \<open>JavaScript truthiness, as tested by \<open>if (x)\<close> and \<open>!x\<close>.\<close>

definition js_truthy :: "js_value \<Rightarrow> bool" where
  "js_truthy x =
     (case x of JNull \<Rightarrow> False | JStr s \<Rightarrow> s \<noteq> [] | JNum n \<Rightarrow> n \<noteq> 0
      | JBool b \<Rightarrow> b | JObj \<Rightarrow> True)"

definition typeof :: "js_value \<Rightarrow> string" where
  "typeof x =
     (case x of JNull \<Rightarrow> ''object'' | JStr s \<Rightarrow> ''string'' | JNum n \<Rightarrow> ''number''
      | JBool b \<Rightarrow> ''boolean'' | JObj \<Rightarrow> ''object'')"

text \<open>The characters of a value of type string (nothing for a value of another type).\<close>

definition string_value :: "js_value \<Rightarrow> string" where
  "string_value x = (case x of JStr s \<Rightarrow> s | _ \<Rightarrow> [])"

text \<open>
  \<open>isValidShortcode\<close>. The regular expression \<open>/^[a-zA-Z0-9]+$/\<close> (no flags) accepts the
  non-empty strings of class characters only.
\<close>

definition isValidShortcode :: "js_value \<Rightarrow> bool" where
  "isValidShortcode code =
     (if \<not> js_truthy code \<or> typeof code \<noteq> ''string'' then False
      else if length (string_value code) < 3 \<or> length (string_value code) > 20 then False
      else string_value code \<noteq> [] \<and> list_all alnum (string_value code))"

subsection \<open>Registry operations\<close>

text \<open>
  Truthiness of an optional string (a property of \<open>clickData\<close>): a missing property
  and the empty string are both falsy.
\<close>

definition truthy :: "string option \<Rightarrow> bool" where
  "truthy x = (case x of None \<Rightarrow> False | Some s \<Rightarrow> s \<noteq> [])"

text \<open>
  \<open>createShortURL\<close>. An exception leaves through the \<open>catch\<close> block, which logs and
  rethrows: the result is \<open>Inl\<close> of the error with the storage as it was when the
  exception was thrown. The record is built before the two \<open>set\<close> calls, and building
  it calls \<open>toISOString\<close> on the expiry date, which throws when that date is invalid
  (\<open>now\<close> is a clock reading and always a valid date). Past \<open>isValidShortcode\<close> the
  custom shortcode is a string, and \<open>string_value\<close> reads it.
\<close>

definition createShortURL ::
  "string \<Rightarrow> int \<Rightarrow> js_value \<Rightarrow> int \<Rightarrow> string \<Rightarrow> rng \<Rightarrow> storage
     \<Rightarrow> (error + url_data) \<times> storage" where
  "createShortURL url minutes customShortcode now uuid g st =
     (case (if js_truthy customShortcode
            then (if \<not> isValidShortcode customShortcode then Inl InvalidShortcodeFormat
                  else if shortcodeExists st (string_value customShortcode)
                  then Inl ShortcodeAlreadyExists
                  else Inr (string_value customShortcode))
            else Inr (fst (generateUniqueShortcode st g))) of
        Inl e \<Rightarrow> (Inl e, st)
      | Inr sc \<Rightarrow>
          (let expiry = now + minutes * 60 * 1000
           in if \<not> valid_time expiry then (Inl RangeError, st)
              else
                (let urlData = \<lparr>id_uuid = uuid, originalUrl = url, shortcode = sc,
                                 createdAt = now, expiresAt = expiry,
                                 validityMinutes = minutes, isActive = True\<rparr>
                 in (Inr urlData,
                     st\<lparr>urls := AList.update sc urlData (urls st),
                        clicks := AList.update sc [] (clicks st)\<rparr>))))"

text \<open>\<open>getURLData\<close> reads the map and the clock and changes nothing.\<close>

definition getURLData :: "int \<Rightarrow> string \<Rightarrow> storage \<Rightarrow> url_data option" where
  "getURLData now sc st =
     (case map_of (urls st) sc of
        None \<Rightarrow> None
      | Some urlData \<Rightarrow> if now > expiresAt urlData then None else Some urlData)"

text \<open>\<open>x || d\<close> on an optional string: the default replaces a missing and an empty \<open>x\<close>.\<close>

definition or_default :: "string option \<Rightarrow> string \<Rightarrow> string" where
  "or_default x d = (if truthy x then the x else d)"

text \<open>\<open>this.clicks.get(shortcode) || []\<close>: an array is truthy, also when empty.\<close>

definition clicks_of :: "storage \<Rightarrow> string \<Rightarrow> click_record list" where
  "clicks_of st sc = (case map_of (clicks st) sc of None \<Rightarrow> [] | Some cs \<Rightarrow> cs)"

definition recordClick ::
  "string \<Rightarrow> click_data \<Rightarrow> int \<Rightarrow> string \<Rightarrow> storage \<Rightarrow> click_record \<times> storage" where
  "recordClick sc clickData now uuid st =
     (let cs = clicks_of st sc;
          clickRecord = \<lparr>click_id = uuid, timestamp = now,
                         ip = cd_ip clickData, userAgent = cd_userAgent clickData,
                         referrer = or_default (cd_referrer clickData) ''Direct'',
                         location = or_default (cd_location clickData) ''Unknown''\<rparr>
      in (clickRecord, st\<lparr>clicks := AList.update sc (cs @ [clickRecord]) (clicks st)\<rparr>))"

definition click_view_of :: "click_record \<Rightarrow> click_view" where
  "click_view_of click =
     \<lparr>v_timestamp = timestamp click, v_referrer = referrer click,
      v_location = location click, v_userAgent = userAgent click\<rparr>"

definition getStatistics :: "string \<Rightarrow> storage \<Rightarrow> statistics option" where
  "getStatistics sc st =
     (case map_of (urls st) sc of
        None \<Rightarrow> None
      | Some urlData \<Rightarrow>
          (let cs = clicks_of st sc
           in Some \<lparr>s_shortcode = sc, s_originalUrl = originalUrl urlData,
                    s_createdAt = createdAt urlData, s_expiresAt = expiresAt urlData,
                    s_totalClicks = length cs, s_clicks = map click_view_of cs\<rparr>))"

definition summary_of :: "url_data \<Rightarrow> nat \<Rightarrow> url_summary" where
  "summary_of urlData n =
     \<lparr>id_uuid = id_uuid urlData, originalUrl = originalUrl urlData,
      shortcode = shortcode urlData, createdAt = createdAt urlData,
      expiresAt = expiresAt urlData, validityMinutes = validityMinutes urlData,
      isActive = isActive urlData, totalClicks = n\<rparr>"

definition getAllURLs :: "storage \<Rightarrow> url_summary list" where
  "getAllURLs st = map (\<lambda>(sc, urlData). summary_of urlData (length (clicks_of st sc))) (urls st)"

text \<open>
  The loop of \<open>cleanupExpiredURLs\<close> over the entries of \<open>urls\<close>. The loop deletes only the
  entry it is visiting, which a \<open>Map\<close> iterator allows: the entries after it are still
  visited, each once, so the loop runs over the entries the map had when it started.
\<close>

fun cleanup_loop :: "int \<Rightarrow> (string \<times> url_data) list \<Rightarrow> storage \<Rightarrow> nat \<Rightarrow> storage \<times> nat" where
  "cleanup_loop now [] st cleanedCount = (st, cleanedCount)"
| "cleanup_loop now ((sc, urlData) # rest) st cleanedCount =
     (if now > expiresAt urlData
      then cleanup_loop now rest
             (st\<lparr>urls := AList.delete sc (urls st), clicks := AList.delete sc (clicks st)\<rparr>)
             (cleanedCount + 1)
      else cleanup_loop now rest st cleanedCount)"

definition cleanupExpiredURLs :: "int \<Rightarrow> storage \<Rightarrow> storage \<times> nat" where
  "cleanupExpiredURLs now st = cleanup_loop now (urls st) st 0"

subsection \<open>Sequences of calls\<close>

text \<open>
  One call of the facade, with what the environment supplies to it. The HTTP layer calls
  nothing else on the registry, and the cleanup timer calls \<open>cleanupExpiredURLs\<close>.
\<close>

datatype op =
    Create string int js_value int string rng
  | Resolve int string
  | Click string click_data int string
  | Stats string
  | ListAll
  | Cleanup int

fun step :: "op \<Rightarrow> storage \<Rightarrow> storage" where
  "step (Create url minutes customShortcode now uuid g) st =
     snd (createShortURL url minutes customShortcode now uuid g st)"
| "step (Resolve now sc) st = st"
| "step (Click sc clickData now uuid) st = snd (recordClick sc clickData now uuid st)"
| "step (Stats sc) st = st"
| "step ListAll st = st"
| "step (Cleanup now) st = fst (cleanupExpiredURLs now st)"

definition run :: "op list \<Rightarrow> storage \<Rightarrow> storage" where
  "run ops st = fold step ops st"

subsection \<open>Notions used in the statements\<close>

text \<open>
  The shortcode \<open>sc\<close> has no record in the URL map before the calls \<open>ops\<close>, between any
  two of them and after them.
\<close>

fun never_created :: "string \<Rightarrow> op list \<Rightarrow> storage \<Rightarrow> bool" where
  "never_created sc [] st = (map_of (urls st) sc = None)"
| "never_created sc (x # xs) st = (map_of (urls st) sc = None \<and> never_created sc xs (step x st))"

text \<open>The code of the \<open>k\<close>-th attempt (from 0) of a run of \<open>generateUniqueShortcode\<close> on \<open>g\<close>.\<close>

definition attempt_code :: "rng \<Rightarrow> nat \<Rightarrow> string" where
  "attempt_code g k = fst (generateShortcode 6 (\<lambda>i. g (i + 6 * k)))"

definition expired :: "int \<Rightarrow> url_data \<Rightarrow> bool" where
  "expired now urlData = (now > expiresAt urlData)"

text \<open>The keys of the entries of \<open>es\<close> whose record is expired at \<open>now\<close>.\<close>

definition expired_keys :: "int \<Rightarrow> (string \<times> url_data) list \<Rightarrow> string list" where
  "expired_keys now es = map fst (filter (\<lambda>(sc, urlData). expired now urlData) es)"

text \<open>The records of the registry that are not expired at \<open>now\<close>, in map order.\<close>

definition live_records :: "int \<Rightarrow> storage \<Rightarrow> url_data list" where
  "live_records now st = filter (\<lambda>urlData. \<not> expired now urlData) (map snd (urls st))"

text \<open>
  A run of \<open>recordClick\<close> calls for one shortcode, one call for each triple of click
  data, clock reading and identifier, and what \<open>getStatistics\<close> shows of one such call.
\<close>

definition click_calls :: "string \<Rightarrow> (click_data \<times> int \<times> string) list \<Rightarrow> op list" where
  "click_calls sc cs = map (\<lambda>(clickData, t, uuid). Click sc clickData t uuid) cs"

definition recorded_view :: "click_data \<times> int \<times> string \<Rightarrow> click_view" where
  "recorded_view = (\<lambda>(clickData, t, uuid).
     \<lparr>v_timestamp = t, v_referrer = or_default (cd_referrer clickData) ''Direct'',
      v_location = or_default (cd_location clickData) ''Unknown'',
      v_userAgent = cd_userAgent clickData\<rparr>)"

text \<open>
  What holds of a \<open>Map\<close> whose records were all stored by \<open>createShortURL\<close>: the keys are
  distinct, each record carries its key as \<open>shortcode\<close>, and each key is a valid shortcode.
\<close>

definition registry_ok :: "storage \<Rightarrow> bool" where
  "registry_ok st =
     (distinct (map fst (urls st)) \<and>
      list_all (\<lambda>(sc, urlData). shortcode urlData = sc \<and> isValidShortcode (JStr sc)) (urls st))"

subsection \<open>A concrete scenario\<close>

text \<open>
  Two creations at time 0 (a custom shortcode valid for one minute, a generated one valid
  for thirty), a click on the first, and a click on a shortcode that was never created.
\<close>

definition ex_g :: rng where
  "ex_g = (\<lambda>i. i)"

definition ex_click :: click_data where
  "ex_click = \<lparr>cd_ip = Some ''1.2.3.4'', cd_userAgent = Some ''ua'',
               cd_referrer = None, cd_location = Some ''X''\<rparr>"

definition ex_ops :: "op list" where
  "ex_ops =
     [Create ''https://example.com/a'' 1 (JStr ''old001'') 0 ''id-1'' ex_g,
      Create ''https://example.com/b'' 30 JNull 0 ''id-2'' ex_g,
      Click ''old001'' ex_click 10 ''id-3'',
      Click ''ghost'' ex_click 20 ''id-4'']"

definition ex_old :: url_data where
  "ex_old = \<lparr>id_uuid = ''id-1'', originalUrl = ''https://example.com/a'',
             shortcode = ''old001'', createdAt = 0, expiresAt = 60000,
             validityMinutes = 1, isActive = True\<rparr>"

definition ex_live :: url_data where
  "ex_live = \<lparr>id_uuid = ''id-2'', originalUrl = ''https://example.com/b'',
              shortcode = ''abcdef'', createdAt = 0, expiresAt = 1800000,
              validityMinutes = 30, isActive = True\<rparr>"

definition ex_hit :: "string \<Rightarrow> int \<Rightarrow> click_record" where
  "ex_hit uuid t = \<lparr>click_id = uuid, timestamp = t, ip = Some ''1.2.3.4'',
                    userAgent = Some ''ua'', referrer = ''Direct'', location = ''X''\<rparr>"

definition ex_store :: storage where
  "ex_store =
     \<lparr>urls = [(''old001'', ex_old), (''abcdef'', ex_live)],
      clicks = [(''old001'', [ex_hit ''id-3'' 10]), (''abcdef'', []),
                (''ghost'', [ex_hit ''id-4'' 20])]\<rparr>"

text \<open>A registry in which every code that the constant draw sequence yields is taken.\<close>

definition ex_full :: storage where
  "ex_full =
     \<lparr>urls = [(''aaaaaa'', ex_old\<lparr>shortcode := ''aaaaaa''\<rparr>),
              (''aaaaaaaa'', ex_live\<lparr>shortcode := ''aaaaaaaa''\<rparr>)],
      clicks = [(''aaaaaa'', []), (''aaaaaaaa'', [])]\<rparr>"

section \<open>Shortcode generator\<close>

lemma chars_alnum: "list_all alnum chars"
  by (simp add: chars_def alnum_def)

lemma length_chars: "length chars = 62"
  by (simp add: chars_def)

lemma charAt_chars: "i < length chars \<Longrightarrow> list_all alnum (charAt chars i) \<and> length (charAt chars i) = 1"
  using chars_alnum by (simp add: charAt_def list_all_length)

lemma generateShortcode_loop_props:
  "list_all alnum acc \<Longrightarrow>
   list_all alnum (fst (generateShortcode_loop n g acc)) \<and>
   length (fst (generateShortcode_loop n g acc)) = length acc + n \<and>
   snd (generateShortcode_loop n g acc) = (\<lambda>i. g (i + n))"
proof (induction n arbitrary: g acc)
  case 0
  then show ?case by simp
next
  case (Suc n)
  have lt: "g 0 mod length chars < length chars" by (simp add: length_chars)
  have acc': "list_all alnum (acc @ charAt chars (g 0 mod length chars))"
    using Suc.prems charAt_chars [OF lt] by simp
  have len: "length (acc @ charAt chars (g 0 mod length chars)) = Suc (length acc)"
    using charAt_chars [OF lt] by simp
  show ?case
    using Suc.IH [OF acc', of "g \<circ> Suc"] len
    by (simp add: random_index_def comp_def)
qed

lemma generateShortcode_alnum: "list_all alnum (fst (generateShortcode n g))"
  using generateShortcode_loop_props [of "[]" n g] by (simp add: generateShortcode_def)

lemma generateShortcode_length: "length (fst (generateShortcode n g)) = n"
  using generateShortcode_loop_props [of "[]" n g] by (simp add: generateShortcode_def)

lemma generateShortcode_rest: "snd (generateShortcode n g) = (\<lambda>i. g (i + n))"
  using generateShortcode_loop_props [of "[]" n g] by (simp add: generateShortcode_def)

lemma generateUnique_loop_unfold:
  "generateUnique_loop st g a =
     (if a + 1 > maxAttempts
      then (fst (generateShortcode 8 (\<lambda>i. g (i + 6))), a + 1, \<lambda>i. g (i + 6 + 8))
      else if shortcodeExists st (fst (generateShortcode 6 g))
           then generateUnique_loop st (\<lambda>i. g (i + 6)) (a + 1)
           else (fst (generateShortcode 6 g), a + 1, \<lambda>i. g (i + 6)))"
  by (subst generateUnique_loop.simps)
     (simp add: Let_def split_beta generateShortcode_rest add.assoc)

lemma generateUnique_loop_char:
  "d = Suc maxAttempts - a \<Longrightarrow> a \<le> maxAttempts \<Longrightarrow>
   (case generateUnique_loop st g a of (sc, attempts, g') \<Rightarrow>
      a < attempts \<and> attempts \<le> maxAttempts + 1 \<and>
      (\<forall>k < attempts - 1 - a. shortcodeExists st (attempt_code g k)) \<and>
      (if attempts \<le> maxAttempts
       then sc = attempt_code g (attempts - 1 - a) \<and> \<not> shortcodeExists st sc \<and>
            g' = (\<lambda>i. g (i + 6 * (attempts - a)))
       else sc = fst (generateShortcode 8 (\<lambda>i. g (i + 6 * (attempts - a)))) \<and>
            g' = (\<lambda>i. g (i + 6 * (attempts - a) + 8))))"
proof (induction d arbitrary: a g)
  case 0
  then show ?case by simp
next
  case (Suc d)
  show ?case
  proof (cases "a + 1 > maxAttempts")
    case True
    then show ?thesis
      using Suc.prems by (subst generateUnique_loop_unfold) simp
  next
    case False
    note small = this
    show ?thesis
    proof (cases "shortcodeExists st (fst (generateShortcode 6 g))")
      case False
      then show ?thesis
        using small by (subst generateUnique_loop_unfold) (simp add: attempt_code_def)
    next
      case True
      have d: "d = Suc maxAttempts - (a + 1)" using Suc.prems by simp
      have a: "a + 1 \<le> maxAttempts" using small by simp
      obtain sc attempts g' where r: "generateUnique_loop st (\<lambda>i. g (i + 6)) (a + 1) = (sc, attempts, g')"
        by (metis prod_cases3)
      have code0: "attempt_code g 0 = fst (generateShortcode 6 g)" by (simp add: attempt_code_def)
      have "\<And>i k. i + 6 * k + 6 = i + 6 * Suc k" by simp
      then have shift: "\<And>k. attempt_code (\<lambda>i. g (i + 6)) k = attempt_code g (Suc k)"
        unfolding attempt_code_def by presburger
      note ih = Suc.IH [OF d a, of "\<lambda>i. g (i + 6)", unfolded r prod.case shift]
      have lt: "a + 1 < attempts" "attempts \<le> maxAttempts + 1" using ih by simp_all
      have idx: "Suc (attempts - 1 - (a + 1)) = attempts - 1 - a" using lt by simp
      have off: "\<And>i. i + 6 * (attempts - (a + 1)) + 6 = i + 6 * (attempts - a)" using lt by simp
      have off8: "\<And>i. i + 6 * (attempts - (a + 1)) + 8 + 6 = i + 6 * (attempts - a) + 8"
        using lt by simp
      have all: "\<forall>k < attempts - 1 - a. shortcodeExists st (attempt_code g k)"
      proof (intro allI impI)
        fix k assume k: "k < attempts - 1 - a"
        show "shortcodeExists st (attempt_code g k)"
        proof (cases k)
          case 0
          then show ?thesis using True code0 by simp
        next
          case (Suc j)
          then have "j < attempts - 1 - (a + 1)" using k by simp
          then show ?thesis using ih Suc by simp
        qed
      qed
      have res: "generateUnique_loop st g a = (sc, attempts, g')"
        using small True r by (subst generateUnique_loop_unfold) simp
      have fin: "if attempts \<le> maxAttempts
       then sc = attempt_code g (attempts - 1 - a) \<and> \<not> shortcodeExists st sc \<and>
            g' = (\<lambda>i. g (i + 6 * (attempts - a)))
       else sc = fst (generateShortcode 8 (\<lambda>i. g (i + 6 * (attempts - a)))) \<and>
            g' = (\<lambda>i. g (i + 6 * (attempts - a) + 8))"
        using ih unfolding idx off off8 by (auto split: if_splits)
      show ?thesis
        unfolding res prod.case using lt all fin by simp
    qed
  qed
qed

section \<open>Cleanup\<close>

lemma delete_filter: "AList.delete k al = filter (\<lambda>p. fst p \<noteq> k) al"
  by (induction al) auto

lemma cleanup_loop_char:
  "cleanup_loop now es st n =
     (st\<lparr>urls := filter (\<lambda>p. fst p \<notin> set (expired_keys now es)) (urls st),
         clicks := filter (\<lambda>p. fst p \<notin> set (expired_keys now es)) (clicks st)\<rparr>,
      n + length (expired_keys now es))"
proof (induction es arbitrary: st n)
  case Nil
  then show ?case by (simp add: expired_keys_def)
next
  case (Cons e es)
  obtain sc urlData where e: "e = (sc, urlData)" by (cases e)
  show ?case
  proof (cases "now > expiresAt urlData")
    case True
    have keys: "expired_keys now ((sc, urlData) # es) = sc # expired_keys now es"
      using True by (simp add: expired_keys_def expired_def)
    have f: "\<And>al :: (string \<times> 'a) list. filter (\<lambda>p. fst p \<notin> set (expired_keys now es)) (AList.delete sc al)
             = filter (\<lambda>p. fst p \<notin> set (sc # expired_keys now es)) al"
      by (auto simp: delete_filter intro: filter_cong)
    show ?thesis
      unfolding e keys using True by (simp add: Cons.IH f)
  next
    case False
    have keys: "expired_keys now ((sc, urlData) # es) = expired_keys now es"
      using False by (simp add: expired_keys_def expired_def)
    show ?thesis
      unfolding e keys using False by (simp add: Cons.IH)
  qed
qed

lemma expired_key_iff:
  assumes "distinct (map fst es)" "(sc, urlData) \<in> set es"
  shows "sc \<in> set (expired_keys now es) \<longleftrightarrow> expired now urlData"
proof
  assume "sc \<in> set (expired_keys now es)"
  then obtain u where u: "(sc, u) \<in> set es" "expired now u"
    by (auto simp: expired_keys_def)
  have "u = urlData"
    using assms u(1) by (meson eq_key_imp_eq_value)
  then show "expired now urlData" using u by simp
next
  assume "expired now urlData"
  then show "sc \<in> set (expired_keys now es)"
    using assms(2) by (force simp: expired_keys_def)
qed

lemma cleanup_urls_distinct:
  assumes "distinct (map fst (urls st))"
  shows "urls (fst (cleanupExpiredURLs now st))
           = filter (\<lambda>(sc, urlData). \<not> expired now urlData) (urls st)"
proof -
  have "filter (\<lambda>p. fst p \<notin> set (expired_keys now (urls st))) (urls st)
          = filter (\<lambda>(sc, urlData). \<not> expired now urlData) (urls st)"
    by (rule filter_cong) (auto simp: expired_key_iff [OF assms])
  then show ?thesis
    by (simp add: cleanupExpiredURLs_def cleanup_loop_char)
qed

lemma expired_keys_nil:
  "list_all (\<lambda>(sc, urlData). \<not> expired now urlData) es \<Longrightarrow> expired_keys now es = []"
  by (induction es) (auto simp: expired_keys_def)

section \<open>Creation and the registry invariant\<close>

lemma generateUniqueShortcode_char:
  "case generateUniqueShortcode st g of (sc, attempts, g') \<Rightarrow>
      0 < attempts \<and> attempts \<le> maxAttempts + 1 \<and>
      (\<forall>k < attempts - 1. shortcodeExists st (attempt_code g k)) \<and>
      (if attempts \<le> maxAttempts
       then sc = attempt_code g (attempts - 1) \<and> \<not> shortcodeExists st sc \<and>
            g' = (\<lambda>i. g (i + 6 * attempts))
       else sc = fst (generateShortcode 8 (\<lambda>i. g (i + 6 * attempts))) \<and>
            g' = (\<lambda>i. g (i + 6 * attempts + 8)))"
proof -
  obtain sc attempts g' where r: "generateUnique_loop st g 0 = (sc, attempts, g')"
    by (metis prod_cases3)
  show ?thesis
    using generateUnique_loop_char [of "Suc maxAttempts" 0 st g]
    unfolding generateUniqueShortcode_def r by (auto split: if_splits)
qed

lemma isValidShortcode_iff:
  "isValidShortcode (JStr s) = (3 \<le> length s \<and> length s \<le> 20 \<and> list_all alnum s)"
  by (auto simp: isValidShortcode_def js_truthy_def typeof_def string_value_def)

lemma isValidShortcode_string:
  "isValidShortcode c \<Longrightarrow> c = JStr (string_value c)"
  by (cases c) (simp_all add: isValidShortcode_def js_truthy_def typeof_def string_value_def)

lemma generateUniqueShortcode_valid:
  "isValidShortcode (JStr (fst (generateUniqueShortcode st g)))"
proof -
  obtain sc attempts g' where r: "generateUniqueShortcode st g = (sc, attempts, g')"
    by (metis prod_cases3)
  have "sc = attempt_code g (attempts - 1)
        \<or> sc = fst (generateShortcode 8 (\<lambda>i. g (i + 6 * attempts)))"
    using generateUniqueShortcode_char [of st g] unfolding r by (simp split: if_splits)
  then have "list_all alnum sc \<and> (length sc = 6 \<or> length sc = 8)"
    by (auto simp: attempt_code_def generateShortcode_alnum generateShortcode_length)
  then show ?thesis
    unfolding r by (auto simp: isValidShortcode_iff)
qed

lemma update_append: "map_of al k = None \<Longrightarrow> AList.update k v al = al @ [(k, v)]"
  by (induction al) (auto split: if_splits)

lemma list_all_update:
  "list_all P al \<Longrightarrow> P (k, v) \<Longrightarrow> list_all P (AList.update k v al)"
  by (induction al) auto

lemma createShortURL_cases:
  "createShortURL url minutes customShortcode now uuid g st = (Inl e, st') \<Longrightarrow> st' = st"
  by (auto simp: createShortURL_def Let_def split: if_splits sum.splits)

lemma createShortURL_Inr:
  assumes "createShortURL url minutes customShortcode now uuid g st = (Inr r, st')"
  shows "isValidShortcode (JStr (shortcode r)) \<and>
         r = \<lparr>id_uuid = uuid, originalUrl = url, shortcode = shortcode r,
                                 createdAt = now, expiresAt = now + minutes * 60 * 1000,
                                 validityMinutes = minutes, isActive = True\<rparr> \<and>
         st' = st\<lparr>urls := AList.update (shortcode r) r (urls st),
                        clicks := AList.update (shortcode r) [] (clicks st)\<rparr>"
proof (cases "js_truthy customShortcode")
  case True
  show ?thesis
    using assms True isValidShortcode_string [of customShortcode]
    by (auto simp: createShortURL_def Let_def split: if_splits)
next
  case False
  show ?thesis
    using assms False generateUniqueShortcode_valid [of st g]
    by (auto simp: createShortURL_def Let_def split: if_splits)
qed

lemma registry_ok_constructor: "registry_ok constructor"
  by (simp add: registry_ok_def constructor_def)

lemma registry_ok_create:
  assumes "registry_ok st"
  shows "registry_ok (snd (createShortURL url minutes customShortcode now uuid g st))"
proof (cases "createShortURL url minutes customShortcode now uuid g st")
  case (Pair res st')
  show ?thesis
  proof (cases res)
    case (Inl e)
    then show ?thesis using Pair assms createShortURL_cases by fastforce
  next
    case (Inr r)
    note c = createShortURL_Inr [OF Pair [unfolded Inr]]
    have "distinct (map fst (AList.update (shortcode r) r (urls st)))"
      using assms by (simp add: registry_ok_def distinct_update)
    moreover have "list_all (\<lambda>(sc, urlData). shortcode urlData = sc \<and> isValidShortcode (JStr sc))
                     (AList.update (shortcode r) r (urls st))"
      using assms c by (intro list_all_update) (simp_all add: registry_ok_def)
    ultimately show ?thesis
      using c Pair by (simp add: registry_ok_def)
  qed
qed

lemma registry_ok_click:
  "registry_ok st \<Longrightarrow> registry_ok (snd (recordClick sc clickData now uuid st))"
  by (simp add: registry_ok_def recordClick_def Let_def)

lemma registry_ok_cleanup:
  assumes "registry_ok st"
  shows "registry_ok (fst (cleanupExpiredURLs now st))"
proof -
  have u: "urls (fst (cleanupExpiredURLs now st))
             = filter (\<lambda>p. fst p \<notin> set (expired_keys now (urls st))) (urls st)"
    by (simp add: cleanupExpiredURLs_def cleanup_loop_char)
  show ?thesis
    using assms unfolding registry_ok_def u
    by (auto simp: distinct_map_filter list_all_iff)
qed

lemma registry_ok_step: "registry_ok st \<Longrightarrow> registry_ok (step x st)"
  by (cases x) (simp_all add: registry_ok_create registry_ok_click registry_ok_cleanup)

lemma registry_ok_run: "registry_ok st \<Longrightarrow> registry_ok (run ops st)"
  unfolding run_def by (induction ops arbitrary: st) (simp_all add: registry_ok_step)

lemma registry_ok_shortcodes:
  assumes "registry_ok st"
  shows "map shortcode (map snd (urls st)) = map fst (urls st)"
  using assms by (auto simp: registry_ok_def list_all_iff)

lemma cleanup_removes_expired:
  assumes "map_of (urls st) sc = Some urlData" and "now > expiresAt urlData"
  shows "map_of (urls (fst (cleanupExpiredURLs now st))) sc = None"
proof -
  have "(sc, urlData) \<in> set (urls st)" using assms(1) by (rule map_of_SomeD)
  then have "sc \<in> set (expired_keys now (urls st))"
    using assms(2) by (force simp: expired_keys_def expired_def)
  then show ?thesis
    by (auto simp: cleanupExpiredURLs_def cleanup_loop_char map_of_eq_None_iff)
qed

lemma map_of_filter_key:
  "P k \<Longrightarrow> map_of (filter (\<lambda>p. P (fst p)) al) k = map_of al k"
  by (induction al) auto

lemma expired_keys_subset: "set (expired_keys now es) \<subseteq> fst ` set es"
  by (auto simp: expired_keys_def intro: rev_image_eqI)

lemma cleanup_clicks_frame:
  assumes "sc \<notin> set (expired_keys now (urls st))"
  shows "map_of (clicks (fst (cleanupExpiredURLs now st))) sc = map_of (clicks st) sc"
  using assms map_of_filter_key [of "\<lambda>k. k \<notin> set (expired_keys now (urls st))" sc "clicks st"]
  by (simp add: cleanupExpiredURLs_def cleanup_loop_char)

lemma cleanup_urls_frame:
  assumes "sc \<notin> set (expired_keys now (urls st))"
  shows "map_of (urls (fst (cleanupExpiredURLs now st))) sc = map_of (urls st) sc"
  using assms map_of_filter_key [of "\<lambda>k. k \<notin> set (expired_keys now (urls st))" sc "urls st"]
  by (simp add: cleanupExpiredURLs_def cleanup_loop_char)

lemma absent_not_expired_key:
  "map_of (urls st) sc = None \<Longrightarrow> sc \<notin> set (expired_keys now (urls st))"
  using expired_keys_subset [of now "urls st"] by (auto simp: map_of_eq_None_iff)

lemma cleanup_passes_frame:
  "map_of (urls st) sc = None \<Longrightarrow>
   map_of (urls (run (map Cleanup nows) st)) sc = None \<and>
   map_of (clicks (run (map Cleanup nows) st)) sc = map_of (clicks st) sc"
proof (induction nows arbitrary: st)
  case Nil
  then show ?case by (simp add: run_def)
next
  case (Cons t nows)
  let ?st1 = "fst (cleanupExpiredURLs t st)"
  have k: "sc \<notin> set (expired_keys t (urls st))"
    using Cons.prems by (rule absent_not_expired_key)
  have u: "map_of (urls ?st1) sc = None"
    using cleanup_urls_frame [OF k] Cons.prems by simp
  have "run (map Cleanup (t # nows)) st = run (map Cleanup nows) ?st1"
    by (simp add: run_def)
  then show ?case
    using Cons.IH [OF u] cleanup_clicks_frame [OF k] by simp
qed

lemma recordClick_effect:
  "urls (snd (recordClick sc clickData t uuid st)) = urls st \<and>
   clicks_of (snd (recordClick sc clickData t uuid st)) sc
     = clicks_of st sc @ [fst (recordClick sc clickData t uuid st)] \<and>
   (sc' \<noteq> sc \<longrightarrow> map_of (clicks (snd (recordClick sc clickData t uuid st))) sc'
                    = map_of (clicks st) sc')"
  by (simp add: recordClick_def Let_def clicks_of_def update_conv')

lemma never_created_head: "never_created sc ops st \<Longrightarrow> map_of (urls st) sc = None"
  by (cases ops) simp_all

lemma step_keeps_clicks:
  assumes "map_of (urls st) sc = None" and "map_of (urls (step x st)) sc = None"
  shows "prefix (clicks_of st sc) (clicks_of (step x st) sc)"
proof (cases x)
  case (Create url minutes customShortcode now uuid g)
  show ?thesis
  proof (cases "createShortURL url minutes customShortcode now uuid g st")
    case (Pair res st')
    show ?thesis
    proof (cases res)
      case (Inl e)
      then have "st' = st" using Pair createShortURL_cases by blast
      then show ?thesis using Create Pair by simp
    next
      case (Inr r)
      note c = createShortURL_Inr [OF Pair [unfolded Inr]]
      have st': "st' = st\<lparr>urls := AList.update (shortcode r) r (urls st),
                        clicks := AList.update (shortcode r) [] (clicks st)\<rparr>"
        using c by simp
      have "map_of (urls st') sc = None" using assms(2) Create Pair by simp
      then have "shortcode r \<noteq> sc"
        unfolding st' by (auto simp: update_conv')
      then have "clicks_of st' sc = clicks_of st sc"
        unfolding st' by (simp add: clicks_of_def update_conv')
      then show ?thesis using Create Pair by simp
    qed
  qed
next
  case (Click sc' clickData now uuid)
  show ?thesis
  proof (cases "sc' = sc")
    case True
    then show ?thesis
      using Click recordClick_effect [of sc clickData now uuid st sc] by simp
  next
    case False
    then have "map_of (clicks (step x st)) sc = map_of (clicks st) sc"
      using Click recordClick_effect [of sc' clickData now uuid st sc] by simp
    then show ?thesis by (simp add: clicks_of_def)
  qed
next
  case (Cleanup now)
  have "map_of (clicks (step x st)) sc = map_of (clicks st) sc"
    using Cleanup assms(1) by (simp add: cleanup_clicks_frame absent_not_expired_key)
  then show ?thesis by (simp add: clicks_of_def)
qed simp_all

lemma never_created_keeps_clicks:
  "never_created sc ops st \<Longrightarrow> prefix (clicks_of st sc) (clicks_of (run ops st) sc)"
proof (induction ops arbitrary: st)
  case Nil
  then show ?case by (simp add: run_def)
next
  case (Cons x xs)
  have n: "never_created sc xs (step x st)" and m: "map_of (urls st) sc = None"
    using Cons.prems by simp_all
  have "prefix (clicks_of st sc) (clicks_of (step x st) sc)"
    using m never_created_head [OF n] by (rule step_keeps_clicks)
  moreover have "prefix (clicks_of (step x st) sc) (clicks_of (run xs (step x st)) sc)"
    using n by (rule Cons.IH)
  moreover have "run (x # xs) st = run xs (step x st)" by (simp add: run_def)
  ultimately show ?case by (metis prefix_order.trans)
qed

section \<open>Clicks and statistics\<close>

lemma or_default_cases:
  "or_default x d = (case x of None \<Rightarrow> d | Some s \<Rightarrow> if s = [] then d else s)"
  by (simp add: or_default_def truthy_def split: option.splits)

lemma recordClick_fst:
  "fst (recordClick sc clickData t uuid st) =
     \<lparr>click_id = uuid, timestamp = t, ip = cd_ip clickData, userAgent = cd_userAgent clickData,
      referrer = or_default (cd_referrer clickData) ''Direct'',
      location = or_default (cd_location clickData) ''Unknown''\<rparr>"
  by (simp add: recordClick_def Let_def)

lemma click_calls_effect:
  "urls (run (click_calls sc cs) st) = urls st \<and>
   map click_view_of (clicks_of (run (click_calls sc cs) st) sc)
     = map click_view_of (clicks_of st sc) @ map recorded_view cs"
proof (induction cs arbitrary: st)
  case Nil
  then show ?case by (simp add: run_def click_calls_def)
next
  case (Cons c cs)
  obtain clickData t uuid where c: "c = (clickData, t, uuid)" by (cases c)
  let ?st1 = "snd (recordClick sc clickData t uuid st)"
  have r: "run (click_calls sc (c # cs)) st = run (click_calls sc cs) ?st1"
    by (simp add: run_def click_calls_def c)
  have v: "click_view_of (fst (recordClick sc clickData t uuid st)) = recorded_view c"
    by (simp add: recordClick_fst click_view_of_def recorded_view_def c)
  show ?case
    unfolding r using Cons.IH [of ?st1] recordClick_effect [of sc clickData t uuid st sc] v
    by simp
qed

section \<open>Claims\<close>

lemma ex_run: "run ex_ops constructor = ex_store"
  by code_simp

lemma cleanup_twice:
  assumes "distinct (map fst (urls st))"
  shows "cleanupExpiredURLs now (fst (cleanupExpiredURLs now st)) = (fst (cleanupExpiredURLs now st), 0)"
proof -
  let ?st' = "fst (cleanupExpiredURLs now st)"
  have "list_all (\<lambda>(sc, urlData). \<not> expired now urlData) (urls ?st')"
    by (auto simp: cleanup_urls_distinct [OF assms] list_all_iff)
  then have "expired_keys now (urls ?st') = []" by (rule expired_keys_nil)
  then show ?thesis
    by (simp add: cleanupExpiredURLs_def [of now ?st'] cleanup_loop_char)
qed

text \<open>
  Claim C1. For every URL and every \<open>validityMinutes\<close> from 1 to 525600, at a clock
  reading whose expiry is a valid date (every reading up to the year 275759),
  \<open>createShortURL\<close> without a custom shortcode succeeds, and \<open>getURLData\<close> on the
  returned shortcode at the same clock reading returns the record, whose \<open>originalUrl\<close>
  is the URL passed and whose \<open>expiresAt\<close> is \<open>createdAt\<close> plus
  \<open>validityMinutes * 60\<close> seconds.
\<close>

theorem create_then_resolve:
  assumes "1 \<le> minutes" and "minutes \<le> 525600"
    and "valid_time (now + minutes * 60 * 1000)"
  shows "case createShortURL url minutes JNull now uuid g st of
           (Inl e, st') \<Rightarrow> False
         | (Inr urlData, st') \<Rightarrow>
             getURLData now (shortcode urlData) st' = Some urlData \<and>
             originalUrl urlData = url \<and>
             createdAt urlData = now \<and>
             expiresAt urlData = createdAt urlData + minutes * 60 * 1000"
  using assms
  by (simp add: createShortURL_def js_truthy_def Let_def getURLData_def update_conv')

theorem create_then_resolve_witness:
  "(1::int) \<le> 30 \<and> (30::int) \<le> 525600 \<and> valid_time (1700000000000 + 30 * 60 * 1000) \<and>
   (case createShortURL ''https://example.com'' 30 JNull 1700000000000 ''id-5'' ex_g ex_store of
      (Inl e, st') \<Rightarrow> False
    | (Inr urlData, st') \<Rightarrow>
        getURLData 1700000000000 (shortcode urlData) st' = Some urlData \<and>
        originalUrl urlData = ''https://example.com'' \<and>
        createdAt urlData = 1700000000000 \<and>
        expiresAt urlData = 1700001800000)"
proof -
  have h: "valid_time (1700000000000 + 30 * 60 * 1000)" by (simp add: valid_time_def)
  show ?thesis
    using h create_then_resolve [of 30 1700000000000 "''https://example.com''" "''id-5''" ex_g ex_store, OF _ _ h]
    by (auto split: prod.splits sum.splits)
qed

text \<open>
  Claim C2. \<open>getURLData\<close> returns the stored record exactly when the shortcode is a key
  of the URL map and \<open>now \<le> expiresAt\<close>, and absent otherwise. It only reads: for a
  record that is present and expired it returns absent while the record stays in the map,
  is still listed by \<open>getAllURLs\<close> (the entry has every field of the record and, as
  \<open>totalClicks\<close>, the length of the shortcode's click list) and still has statistics; a
  cleanup pass at that clock reading removes it.
\<close>

theorem getURLData_expiry_hiding:
  "getURLData now sc st =
     (case map_of (urls st) sc of
        None \<Rightarrow> None
      | Some urlData \<Rightarrow> if now \<le> expiresAt urlData then Some urlData else None) \<and>
   (map_of (urls st) sc = Some urlData \<and> now > expiresAt urlData \<longrightarrow>
      getURLData now sc st = None \<and>
      \<lparr>id_uuid = id_uuid urlData, originalUrl = originalUrl urlData,
       shortcode = shortcode urlData, createdAt = createdAt urlData,
       expiresAt = expiresAt urlData, validityMinutes = validityMinutes urlData,
       isActive = isActive urlData,
       totalClicks = (case map_of (clicks st) sc of None \<Rightarrow> 0 | Some cs \<Rightarrow> length cs)\<rparr>
        \<in> set (getAllURLs st) \<and>
      getStatistics sc st \<noteq> None \<and>
      map_of (urls (fst (cleanupExpiredURLs now st))) sc = None \<and>
      getStatistics sc (fst (cleanupExpiredURLs now st)) = None)"
proof -
  have a: "getURLData now sc st =
     (case map_of (urls st) sc of
        None \<Rightarrow> None
      | Some urlData \<Rightarrow> if now \<le> expiresAt urlData then Some urlData else None)"
    by (auto simp: getURLData_def split: option.splits)
  have b: "map_of (urls st) sc = Some urlData \<and> now > expiresAt urlData \<longrightarrow>
      getURLData now sc st = None \<and>
      \<lparr>id_uuid = id_uuid urlData, originalUrl = originalUrl urlData,
       shortcode = shortcode urlData, createdAt = createdAt urlData,
       expiresAt = expiresAt urlData, validityMinutes = validityMinutes urlData,
       isActive = isActive urlData,
       totalClicks = (case map_of (clicks st) sc of None \<Rightarrow> 0 | Some cs \<Rightarrow> length cs)\<rparr>
        \<in> set (getAllURLs st) \<and>
      getStatistics sc st \<noteq> None \<and>
      map_of (urls (fst (cleanupExpiredURLs now st))) sc = None \<and>
      getStatistics sc (fst (cleanupExpiredURLs now st)) = None"
  proof (intro impI, elim conjE)
    assume m: "map_of (urls st) sc = Some urlData" and e: "now > expiresAt urlData"
    have mem: "(sc, urlData) \<in> set (urls st)" using m by (rule map_of_SomeD)
    have 1: "getURLData now sc st = None" using m e by (simp add: getURLData_def)
    have "summary_of urlData (length (clicks_of st sc)) \<in> set (getAllURLs st)"
      unfolding getAllURLs_def using mem by force
    moreover have "length (clicks_of st sc)
                     = (case map_of (clicks st) sc of None \<Rightarrow> 0 | Some cs \<Rightarrow> length cs)"
      by (simp add: clicks_of_def split: option.splits)
    ultimately have 2: "\<lparr>id_uuid = id_uuid urlData, originalUrl = originalUrl urlData,
       shortcode = shortcode urlData, createdAt = createdAt urlData,
       expiresAt = expiresAt urlData, validityMinutes = validityMinutes urlData,
       isActive = isActive urlData,
       totalClicks = (case map_of (clicks st) sc of None \<Rightarrow> 0 | Some cs \<Rightarrow> length cs)\<rparr>
        \<in> set (getAllURLs st)"
      by (simp add: summary_of_def)
    have 3: "getStatistics sc st \<noteq> None" using m by (simp add: getStatistics_def Let_def)
    have 4: "map_of (urls (fst (cleanupExpiredURLs now st))) sc = None"
      using m e by (rule cleanup_removes_expired)
    have 5: "getStatistics sc (fst (cleanupExpiredURLs now st)) = None"
      using 4 by (simp add: getStatistics_def)
    show "getURLData now sc st = None \<and>
      \<lparr>id_uuid = id_uuid urlData, originalUrl = originalUrl urlData,
       shortcode = shortcode urlData, createdAt = createdAt urlData,
       expiresAt = expiresAt urlData, validityMinutes = validityMinutes urlData,
       isActive = isActive urlData,
       totalClicks = (case map_of (clicks st) sc of None \<Rightarrow> 0 | Some cs \<Rightarrow> length cs)\<rparr>
        \<in> set (getAllURLs st) \<and>
      getStatistics sc st \<noteq> None \<and>
      map_of (urls (fst (cleanupExpiredURLs now st))) sc = None \<and>
      getStatistics sc (fst (cleanupExpiredURLs now st)) = None"
      using 1 2 3 4 5 by simp
  qed
  show ?thesis using a b by (rule conjI)
qed

theorem getURLData_expiry_hiding_witness:
  "map_of (urls ex_store) ''old001'' = Some ex_old \<and> 60001 > expiresAt ex_old \<and>
   getURLData 60000 ''old001'' ex_store = Some ex_old \<and>
   getURLData 60001 ''old001'' ex_store = None \<and>
   getURLData 60001 ''nokey'' ex_store = None \<and>
   \<lparr>id_uuid = ''id-1'', originalUrl = ''https://example.com/a'', shortcode = ''old001'',
    createdAt = 0, expiresAt = 60000, validityMinutes = 1, isActive = True,
    totalClicks = 1\<rparr> \<in> set (getAllURLs ex_store) \<and>
   getStatistics ''old001'' ex_store \<noteq> None \<and>
   map_of (urls (fst (cleanupExpiredURLs 60001 ex_store))) ''old001'' = None \<and>
   getStatistics ''old001'' (fst (cleanupExpiredURLs 60001 ex_store)) = None"
proof -
  have h: "map_of (urls ex_store) ''old001'' = Some ex_old" "60001 > expiresAt ex_old"
    by (simp_all add: ex_store_def ex_old_def)
  have n: "map_of (urls ex_store) ''nokey'' = None" by (simp add: ex_store_def)
  have c: "map_of (clicks ex_store) ''old001'' = Some [ex_hit ''id-3'' 10]"
    by (simp add: ex_store_def)
  have x: "id_uuid ex_old = ''id-1''" "originalUrl ex_old = ''https://example.com/a''"
    "shortcode ex_old = ''old001''" "createdAt ex_old = 0" "expiresAt ex_old = 60000"
    "validityMinutes ex_old = 1" "isActive ex_old"
    by (simp_all add: ex_old_def)
  show ?thesis
    using h c
      getURLData_expiry_hiding [of 60001 "''old001''" ex_store ex_old]
      getURLData_expiry_hiding [of 60000 "''old001''" ex_store ex_old]
      getURLData_expiry_hiding [of 60001 "''nokey''" ex_store ex_old]
    by (simp add: n x)
qed

text \<open>
  Claim C3, amended. For every call with a truthy \<open>customShortcode\<close>: it raises the
  invalid-format error exactly when the value is not a string of length 3 to 20 over
  \<open>[a-zA-Z0-9]\<close> (so for every truthy number, boolean and object); otherwise it raises
  the already-exists error exactly when the string is a key of the URL map; otherwise it
  raises a \<open>RangeError\<close> when the expiry is not a valid date, and else succeeds and
  appends the record under that key. Every error leaves both maps as they were. A call
  with a falsy \<open>customShortcode\<close> (the empty string, 0, \<open>false\<close>) does in every respect
  what the call with \<open>null\<close> does.
\<close>

theorem createShortURL_custom:
  "isValidShortcode c =
     (case c of JStr s \<Rightarrow> 3 \<le> length s \<and> length s \<le> 20 \<and> list_all alnum s | _ \<Rightarrow> False) \<and>
   (js_truthy c \<longrightarrow>
      createShortURL url minutes c now uuid g st =
        (let urlData = \<lparr>id_uuid = uuid, originalUrl = url, shortcode = string_value c,
                         createdAt = now, expiresAt = now + minutes * 60 * 1000,
                         validityMinutes = minutes, isActive = True\<rparr>
         in if \<not> isValidShortcode c then (Inl InvalidShortcodeFormat, st)
            else if map_of (urls st) (string_value c) \<noteq> None
            then (Inl ShortcodeAlreadyExists, st)
            else if \<not> valid_time (now + minutes * 60 * 1000) then (Inl RangeError, st)
            else (Inr urlData,
                  st\<lparr>urls := urls st @ [(string_value c, urlData)],
                     clicks := AList.update (string_value c) [] (clicks st)\<rparr>))) \<and>
   (\<not> js_truthy c \<longrightarrow>
      createShortURL url minutes c now uuid g st
        = createShortURL url minutes JNull now uuid g st)"
proof -
  have a: "isValidShortcode c =
     (case c of JStr s \<Rightarrow> 3 \<le> length s \<and> length s \<le> 20 \<and> list_all alnum s | _ \<Rightarrow> False)"
    by (cases c)
       (auto simp: isValidShortcode_def js_truthy_def typeof_def string_value_def)
  have b: "js_truthy c \<longrightarrow>
      createShortURL url minutes c now uuid g st =
        (let urlData = \<lparr>id_uuid = uuid, originalUrl = url, shortcode = string_value c,
                         createdAt = now, expiresAt = now + minutes * 60 * 1000,
                         validityMinutes = minutes, isActive = True\<rparr>
         in if \<not> isValidShortcode c then (Inl InvalidShortcodeFormat, st)
            else if map_of (urls st) (string_value c) \<noteq> None
            then (Inl ShortcodeAlreadyExists, st)
            else if \<not> valid_time (now + minutes * 60 * 1000) then (Inl RangeError, st)
            else (Inr urlData,
                  st\<lparr>urls := urls st @ [(string_value c, urlData)],
                     clicks := AList.update (string_value c) [] (clicks st)\<rparr>))"
    by (auto simp: createShortURL_def Let_def shortcodeExists_def update_append)
  have c: "\<not> js_truthy c \<longrightarrow>
      createShortURL url minutes c now uuid g st
        = createShortURL url minutes JNull now uuid g st"
    by (simp add: createShortURL_def js_truthy_def)
  show ?thesis by (rule conjI [OF a conjI [OF b c]])
qed

theorem createShortURL_custom_witness:
  "js_truthy (JStr ''ab'') \<and> js_truthy (JNum 123) \<and> js_truthy (JBool True) \<and> js_truthy JObj \<and>
   js_truthy (JStr ''old001'') \<and> js_truthy (JStr ''new01'') \<and>
   createShortURL ''https://example.com'' 30 (JStr ''ab'') 0 ''id-5'' ex_g ex_store
     = (Inl InvalidShortcodeFormat, ex_store) \<and>
   createShortURL ''https://example.com'' 30 (JNum 123) 0 ''id-5'' ex_g ex_store
     = (Inl InvalidShortcodeFormat, ex_store) \<and>
   createShortURL ''https://example.com'' 30 (JBool True) 0 ''id-5'' ex_g ex_store
     = (Inl InvalidShortcodeFormat, ex_store) \<and>
   createShortURL ''https://example.com'' 30 JObj 0 ''id-5'' ex_g ex_store
     = (Inl InvalidShortcodeFormat, ex_store) \<and>
   createShortURL ''https://example.com'' 30 (JStr ''old001'') 0 ''id-5'' ex_g ex_store
     = (Inl ShortcodeAlreadyExists, ex_store) \<and>
   fst (createShortURL ''https://example.com'' 30 (JStr ''new01'') 0 ''id-5'' ex_g ex_store)
     = Inr \<lparr>id_uuid = ''id-5'', originalUrl = ''https://example.com'', shortcode = ''new01'',
            createdAt = 0, expiresAt = 1800000, validityMinutes = 30, isActive = True\<rparr> \<and>
   map fst (urls (snd (createShortURL ''https://example.com'' 30 (JStr ''new01'') 0 ''id-5'' ex_g
                         ex_store)))
     = [''old001'', ''abcdef'', ''new01''] \<and>
   createShortURL ''https://example.com'' 1000000000000 (JStr ''new01'') 0 ''id-5'' ex_g ex_store
     = (Inl RangeError, ex_store) \<and>
   \<not> js_truthy (JStr '''') \<and>
   createShortURL ''https://example.com'' 30 (JStr '''') 0 ''id-5'' ex_g ex_store
     = createShortURL ''https://example.com'' 30 JNull 0 ''id-5'' ex_g ex_store"
proof -
  have t: "js_truthy (JStr ''ab'')" "js_truthy (JNum 123)" "js_truthy (JBool True)"
    "js_truthy JObj" "js_truthy (JStr ''old001'')" "js_truthy (JStr ''new01'')"
    "\<not> js_truthy (JStr '''')"
    by (simp_all add: js_truthy_def)
  have v: "isValidShortcode (JStr ''new01'')" "\<not> isValidShortcode (JStr ''ab'')"
    "isValidShortcode (JStr ''old001'')"
    by code_simp+
  have m: "map_of (urls ex_store) ''new01'' = None" "map_of (urls ex_store) ''old001'' \<noteq> None"
    by (simp_all add: ex_store_def)
  have a: "createShortURL ''https://example.com'' 30 (JStr ''ab'') 0 ''id-5'' ex_g ex_store
     = (Inl InvalidShortcodeFormat, ex_store)"
    using createShortURL_custom [of "JStr ''ab''" "''https://example.com''" 30 0 "''id-5''" ex_g
        ex_store] t v
    by simp
  have n1: "createShortURL ''https://example.com'' 30 (JNum 123) 0 ''id-5'' ex_g ex_store
     = (Inl InvalidShortcodeFormat, ex_store)"
    using createShortURL_custom [of "JNum 123" "''https://example.com''" 30 0 "''id-5''" ex_g
        ex_store] t
    by simp
  have n2: "createShortURL ''https://example.com'' 30 (JBool True) 0 ''id-5'' ex_g ex_store
     = (Inl InvalidShortcodeFormat, ex_store)"
    using createShortURL_custom [of "JBool True" "''https://example.com''" 30 0 "''id-5''" ex_g
        ex_store] t
    by simp
  have n3: "createShortURL ''https://example.com'' 30 JObj 0 ''id-5'' ex_g ex_store
     = (Inl InvalidShortcodeFormat, ex_store)"
    using createShortURL_custom [of JObj "''https://example.com''" 30 0 "''id-5''" ex_g
        ex_store] t
    by simp
  have b: "createShortURL ''https://example.com'' 30 (JStr ''old001'') 0 ''id-5'' ex_g ex_store
     = (Inl ShortcodeAlreadyExists, ex_store)"
    using createShortURL_custom [of "JStr ''old001''" "''https://example.com''" 30 0 "''id-5''"
        ex_g ex_store] t v m
    by (simp add: string_value_def)
  have c: "createShortURL ''https://example.com'' 30 (JStr ''new01'') 0 ''id-5'' ex_g ex_store
     = (Inr \<lparr>id_uuid = ''id-5'', originalUrl = ''https://example.com'', shortcode = ''new01'',
            createdAt = 0, expiresAt = 1800000, validityMinutes = 30, isActive = True\<rparr>,
        ex_store\<lparr>urls := urls ex_store @ [(''new01'',
            \<lparr>id_uuid = ''id-5'', originalUrl = ''https://example.com'', shortcode = ''new01'',
             createdAt = 0, expiresAt = 1800000, validityMinutes = 30, isActive = True\<rparr>)],
                  clicks := AList.update ''new01'' [] (clicks ex_store)\<rparr>)"
    using createShortURL_custom [of "JStr ''new01''" "''https://example.com''" 30 0 "''id-5''"
        ex_g ex_store] t v m
    by (simp add: valid_time_def Let_def string_value_def)
  have d: "createShortURL ''https://example.com'' 1000000000000 (JStr ''new01'') 0 ''id-5'' ex_g
             ex_store = (Inl RangeError, ex_store)"
    using createShortURL_custom [of "JStr ''new01''" "''https://example.com''" 1000000000000 0
        "''id-5''" ex_g ex_store] t v m
    by (simp add: valid_time_def Let_def string_value_def)
  have e: "createShortURL ''https://example.com'' 30 (JStr '''') 0 ''id-5'' ex_g ex_store
     = createShortURL ''https://example.com'' 30 JNull 0 ''id-5'' ex_g ex_store"
    using createShortURL_custom [of "JStr ''''" "''https://example.com''" 30 0 "''id-5''"
        ex_g ex_store] t
    by simp
  show ?thesis
    unfolding a n1 n2 n3 b c d e using t by (simp add: ex_store_def)
qed

text \<open>
  The claim as stated fails at the values that are not \<open>null\<close> and falsy: the empty string,
  0 and \<open>false\<close> are no valid shortcodes, yet raise no invalid-format error; the call
  generates a code as the call with \<open>null\<close> does. It also fails for a free valid shortcode
  when the validity is so large that the expiry is no valid date: the call raises a
  \<open>RangeError\<close> instead of succeeding.
\<close>

theorem createShortURL_custom_counterexample:
  "JStr '''' \<noteq> JNull \<and> JNum 0 \<noteq> JNull \<and> JBool False \<noteq> JNull \<and>
   \<not> isValidShortcode (JStr '''') \<and> \<not> isValidShortcode (JNum 0) \<and>
   \<not> isValidShortcode (JBool False) \<and>
   createShortURL ''https://example.com'' 30 (JStr '''') 0 ''id-5'' ex_g constructor
     = createShortURL ''https://example.com'' 30 JNull 0 ''id-5'' ex_g constructor \<and>
   createShortURL ''https://example.com'' 30 (JNum 0) 0 ''id-5'' ex_g constructor
     = createShortURL ''https://example.com'' 30 JNull 0 ''id-5'' ex_g constructor \<and>
   createShortURL ''https://example.com'' 30 (JBool False) 0 ''id-5'' ex_g constructor
     = createShortURL ''https://example.com'' 30 JNull 0 ''id-5'' ex_g constructor \<and>
   fst (createShortURL ''https://example.com'' 30 (JStr '''') 0 ''id-5'' ex_g constructor)
     = Inr \<lparr>id_uuid = ''id-5'', originalUrl = ''https://example.com'', shortcode = ''abcdef'',
            createdAt = 0, expiresAt = 1800000, validityMinutes = 30, isActive = True\<rparr> \<and>
   map fst (urls (snd (createShortURL ''https://example.com'' 30 (JStr '''') 0 ''id-5'' ex_g
                         constructor))) = [''abcdef''] \<and>
   isValidShortcode (JStr ''abc'') \<and> \<not> shortcodeExists constructor ''abc'' \<and>
   createShortURL ''https://example.com'' 1000000000000 (JStr ''abc'') 0 ''id-5'' ex_g constructor
     = (Inl RangeError, constructor)"
  by code_simp

text \<open>
  Claim C4. On a map with distinct keys, \<open>cleanupExpiredURLs\<close> keeps exactly the records
  with \<open>now \<le> expiresAt\<close> (in their order), removes from the click map the lists of
  the removed records, and returns the number of records removed; a second call at the
  same clock reading changes nothing and returns 0.
\<close>

theorem cleanupExpiredURLs_exact:
  assumes "distinct (map fst (urls st))"
  shows "cleanupExpiredURLs now st =
           (st\<lparr>urls := filter (\<lambda>(sc, urlData). \<not> now > expiresAt urlData) (urls st),
               clicks := filter (\<lambda>(sc, cs). sc \<notin> set (expired_keys now (urls st))) (clicks st)\<rparr>,
            length (filter (\<lambda>(sc, urlData). now > expiresAt urlData) (urls st)))
         \<and> cleanupExpiredURLs now (fst (cleanupExpiredURLs now st))
             = (fst (cleanupExpiredURLs now st), 0)"
proof -
  have u: "urls (fst (cleanupExpiredURLs now st))
             = filter (\<lambda>(sc, urlData). \<not> now > expiresAt urlData) (urls st)"
    using cleanup_urls_distinct [OF assms, of now] by (simp add: expired_def)
  have c: "clicks (fst (cleanupExpiredURLs now st))
             = filter (\<lambda>(sc, cs). sc \<notin> set (expired_keys now (urls st))) (clicks st)"
    by (simp add: cleanupExpiredURLs_def cleanup_loop_char split_def)
  have n: "snd (cleanupExpiredURLs now st)
             = length (filter (\<lambda>(sc, urlData). now > expiresAt urlData) (urls st))"
    by (simp add: cleanupExpiredURLs_def cleanup_loop_char expired_keys_def expired_def)
  have "fst (cleanupExpiredURLs now st) = st\<lparr>urls := urls (fst (cleanupExpiredURLs now st)),
                clicks := clicks (fst (cleanupExpiredURLs now st))\<rparr>"
    by (simp add: cleanupExpiredURLs_def cleanup_loop_char)
  then have "cleanupExpiredURLs now st =
           (st\<lparr>urls := filter (\<lambda>(sc, urlData). \<not> now > expiresAt urlData) (urls st),
               clicks := filter (\<lambda>(sc, cs). sc \<notin> set (expired_keys now (urls st))) (clicks st)\<rparr>,
            length (filter (\<lambda>(sc, urlData). now > expiresAt urlData) (urls st)))"
    using u c n by (metis prod.collapse)
  then show ?thesis using cleanup_twice [OF assms, of now] by (rule conjI)
qed

theorem cleanupExpiredURLs_exact_witness:
  "distinct (map fst (urls ex_store)) \<and>
   cleanupExpiredURLs 60001 ex_store =
     (\<lparr>urls = [(''abcdef'', ex_live)],
       clicks = [(''abcdef'', []), (''ghost'', [ex_hit ''id-4'' 20])]\<rparr>, 1) \<and>
   cleanupExpiredURLs 60001 (fst (cleanupExpiredURLs 60001 ex_store))
     = (\<lparr>urls = [(''abcdef'', ex_live)],
         clicks = [(''abcdef'', []), (''ghost'', [ex_hit ''id-4'' 20])]\<rparr>, 0)"
proof -
  have h: "distinct (map fst (urls ex_store))" by (simp add: ex_store_def)
  note t = cleanupExpiredURLs_exact [OF h, of 60001]
  have a: "cleanupExpiredURLs 60001 ex_store =
     (\<lparr>urls = [(''abcdef'', ex_live)],
       clicks = [(''abcdef'', []), (''ghost'', [ex_hit ''id-4'' 20])]\<rparr>, 1)"
    using t by (simp add: ex_store_def ex_old_def ex_live_def expired_keys_def expired_def)
  have b: "cleanupExpiredURLs 60001 (fst (cleanupExpiredURLs 60001 ex_store))
             = (fst (cleanupExpiredURLs 60001 ex_store), 0)"
    using t by (rule conjunct2)
  show ?thesis using h a b by simp
qed

text \<open>
  Claim C5. \<open>generateUniqueShortcode\<close> is a total function and makes between 1 and 101
  attempts. Every attempt before the last drew a six-character code that was a key of
  the URL map. When it stops within 100 attempts, the result is the six-character code
  of the last attempt and is not a key of the URL map. At the 101st attempt the result
  is one eight-character generation from the draws that follow, returned as it is,
  with no test against the map. The draws consumed are at most \<open>6 * 101 + 8\<close>.
\<close>

theorem generateUniqueShortcode_terminates:
  "case generateUniqueShortcode st g of (sc, attempts, g') \<Rightarrow>
      1 \<le> attempts \<and> attempts \<le> maxAttempts + 1 \<and>
      (\<forall>k < attempts - 1. shortcodeExists st (attempt_code g k)) \<and>
      (attempts \<le> maxAttempts \<longrightarrow>
         sc = attempt_code g (attempts - 1) \<and> length sc = 6 \<and> \<not> shortcodeExists st sc \<and>
         g' = (\<lambda>i. g (i + 6 * attempts))) \<and>
      (attempts = maxAttempts + 1 \<longrightarrow>
         sc = fst (generateShortcode 8 (\<lambda>i. g (i + 6 * attempts))) \<and> length sc = 8 \<and>
         g' = (\<lambda>i. g (i + 6 * attempts + 8)))"
proof -
  obtain sc attempts g' where r: "generateUniqueShortcode st g = (sc, attempts, g')"
    by (metis prod_cases3)
  note c = generateUniqueShortcode_char [of st g, unfolded r prod.case]
  have six: "length (attempt_code g (attempts - 1)) = 6"
    by (simp add: attempt_code_def generateShortcode_length)
  have eight: "length (fst (generateShortcode 8 (\<lambda>i. g (i + 6 * attempts)))) = 8"
    by (rule generateShortcode_length)
  show ?thesis
    unfolding r prod.case using c six eight
    by (auto simp: generateShortcode_length split: if_splits)
qed

theorem generateUniqueShortcode_terminates_witness:
  "fst (generateUniqueShortcode ex_store ex_g) = ''ghijkl'' \<and>
   fst (snd (generateUniqueShortcode ex_store ex_g)) = 2 \<and>
   shortcodeExists ex_store (attempt_code ex_g 0) \<and>
   \<not> shortcodeExists ex_store ''ghijkl'' \<and>
   fst (generateUniqueShortcode ex_full (\<lambda>i. 0)) = ''aaaaaaaa'' \<and>
   fst (snd (generateUniqueShortcode ex_full (\<lambda>i. 0))) = 101 \<and>
   shortcodeExists ex_full (attempt_code (\<lambda>i. 0) 0) \<and>
   shortcodeExists ex_full (attempt_code (\<lambda>i. 0) 99) \<and>
   shortcodeExists ex_full ''aaaaaaaa''"
proof -
  have v: "fst (generateUniqueShortcode ex_store ex_g) = ''ghijkl''"
          "fst (snd (generateUniqueShortcode ex_store ex_g)) = 2"
    by code_simp+
  have w: "fst (generateUniqueShortcode ex_full (\<lambda>i. 0)) = ''aaaaaaaa''"
          "fst (snd (generateUniqueShortcode ex_full (\<lambda>i. 0))) = 101"
    by code_simp+
  have e: "shortcodeExists ex_full ''aaaaaaaa''"
    by code_simp
  have a: "shortcodeExists ex_store (attempt_code ex_g 0) \<and> \<not> shortcodeExists ex_store ''ghijkl''"
    using generateUniqueShortcode_terminates [of ex_store ex_g] v
    by (auto simp: split_beta maxAttempts_def)
  have b: "shortcodeExists ex_full (attempt_code (\<lambda>i. 0) 0) \<and>
           shortcodeExists ex_full (attempt_code (\<lambda>i. 0) 99)"
    using generateUniqueShortcode_terminates [of ex_full "\<lambda>i. 0"] w
    by (auto simp: split_beta maxAttempts_def)
  show ?thesis using v w e a b by simp
qed

text \<open>
  Claim C6. \<open>getStatistics\<close> returns absent exactly when the shortcode has no record in
  the URL map; it reads no clock, so an expired record that is still in the map has
  statistics. When the record is present, \<open>totalClicks\<close> is the length of the shortcode's
  click list and \<open>clicks\<close> lists the clicks in the order of the list, each reduced to
  \<open>timestamp\<close>, \<open>referrer\<close>, \<open>location\<close> and \<open>userAgent\<close> (the type \<open>click_view\<close> has no
  other field). Recording \<open>n\<close> clicks for the shortcode adds \<open>n\<close> to \<open>totalClicks\<close> and
  appends their views in call order; after a successful creation followed by \<open>n\<close>
  recorded clicks, \<open>totalClicks\<close> is \<open>n\<close>.
\<close>

theorem getStatistics_view:
  "(getStatistics sc st = None) = (map_of (urls st) sc = None) \<and>
   (map_of (urls st) sc = Some urlData \<longrightarrow>
      getStatistics sc st =
        Some \<lparr>s_shortcode = sc, s_originalUrl = originalUrl urlData,
              s_createdAt = createdAt urlData, s_expiresAt = expiresAt urlData,
              s_totalClicks = length (clicks_of st sc),
              s_clicks = map click_view_of (clicks_of st sc)\<rparr> \<and>
      getStatistics sc (run (click_calls sc cs) st) =
        Some \<lparr>s_shortcode = sc, s_originalUrl = originalUrl urlData,
              s_createdAt = createdAt urlData, s_expiresAt = expiresAt urlData,
              s_totalClicks = length (clicks_of st sc) + length cs,
              s_clicks = map click_view_of (clicks_of st sc) @ map recorded_view cs\<rparr>) \<and>
   (fst (createShortURL url minutes customShortcode now uuid g st) = Inr urlData \<longrightarrow>
      getStatistics (shortcode urlData)
          (run (click_calls (shortcode urlData) cs)
             (snd (createShortURL url minutes customShortcode now uuid g st))) =
        Some \<lparr>s_shortcode = shortcode urlData, s_originalUrl = url,
              s_createdAt = now, s_expiresAt = now + minutes * 60 * 1000,
              s_totalClicks = length cs, s_clicks = map recorded_view cs\<rparr>)"
proof -
  have a: "(getStatistics sc st = None) = (map_of (urls st) sc = None)"
    by (simp add: getStatistics_def Let_def split: option.splits)
  have b: "map_of (urls st) sc = Some urlData \<longrightarrow>
      getStatistics sc st =
        Some \<lparr>s_shortcode = sc, s_originalUrl = originalUrl urlData,
              s_createdAt = createdAt urlData, s_expiresAt = expiresAt urlData,
              s_totalClicks = length (clicks_of st sc),
              s_clicks = map click_view_of (clicks_of st sc)\<rparr> \<and>
      getStatistics sc (run (click_calls sc cs) st) =
        Some \<lparr>s_shortcode = sc, s_originalUrl = originalUrl urlData,
              s_createdAt = createdAt urlData, s_expiresAt = expiresAt urlData,
              s_totalClicks = length (clicks_of st sc) + length cs,
              s_clicks = map click_view_of (clicks_of st sc) @ map recorded_view cs\<rparr>"
  proof
    assume m: "map_of (urls st) sc = Some urlData"
    note e = click_calls_effect [of sc cs st]
    have len: "length (clicks_of (run (click_calls sc cs) st) sc) = length (clicks_of st sc) + length cs"
      using e by (metis length_append length_map)
    show "getStatistics sc st =
        Some \<lparr>s_shortcode = sc, s_originalUrl = originalUrl urlData,
              s_createdAt = createdAt urlData, s_expiresAt = expiresAt urlData,
              s_totalClicks = length (clicks_of st sc),
              s_clicks = map click_view_of (clicks_of st sc)\<rparr> \<and>
      getStatistics sc (run (click_calls sc cs) st) =
        Some \<lparr>s_shortcode = sc, s_originalUrl = originalUrl urlData,
              s_createdAt = createdAt urlData, s_expiresAt = expiresAt urlData,
              s_totalClicks = length (clicks_of st sc) + length cs,
              s_clicks = map click_view_of (clicks_of st sc) @ map recorded_view cs\<rparr>"
      using m e len by (simp add: getStatistics_def Let_def)
  qed
  have c: "fst (createShortURL url minutes customShortcode now uuid g st) = Inr urlData \<longrightarrow>
      getStatistics (shortcode urlData)
          (run (click_calls (shortcode urlData) cs)
             (snd (createShortURL url minutes customShortcode now uuid g st))) =
        Some \<lparr>s_shortcode = shortcode urlData, s_originalUrl = url,
              s_createdAt = now, s_expiresAt = now + minutes * 60 * 1000,
              s_totalClicks = length cs, s_clicks = map recorded_view cs\<rparr>"
  proof
    assume f: "fst (createShortURL url minutes customShortcode now uuid g st) = Inr urlData"
    let ?st1 = "snd (createShortURL url minutes customShortcode now uuid g st)"
    have p: "createShortURL url minutes customShortcode now uuid g st = (Inr urlData, ?st1)"
      using f by (metis prod.collapse)
    note r = createShortURL_Inr [OF p]
    have m: "map_of (urls ?st1) (shortcode urlData) = Some urlData"
      by (subst r [THEN conjunct2, THEN conjunct2]) (simp add: update_conv')
    have k: "clicks_of ?st1 (shortcode urlData) = []"
      by (subst r [THEN conjunct2, THEN conjunct2]) (simp add: clicks_of_def update_conv')
    note e = click_calls_effect [of "shortcode urlData" cs ?st1]
    have len: "length (clicks_of (run (click_calls (shortcode urlData) cs) ?st1) (shortcode urlData)) = length cs"
      using e k by (metis append_Nil length_map list.simps(8))
    have fields: "originalUrl urlData = url" "createdAt urlData = now"
      "expiresAt urlData = now + minutes * 60 * 1000"
      using r [THEN conjunct2, THEN conjunct1] by (metis url_data.select_convs)+
    show "getStatistics (shortcode urlData)
          (run (click_calls (shortcode urlData) cs) ?st1) =
        Some \<lparr>s_shortcode = shortcode urlData, s_originalUrl = url,
              s_createdAt = now, s_expiresAt = now + minutes * 60 * 1000,
              s_totalClicks = length cs, s_clicks = map recorded_view cs\<rparr>"
      using m e k len fields by (simp add: getStatistics_def Let_def)
  qed
  show ?thesis using a b c by simp
qed

theorem getStatistics_view_witness:
  "map_of (urls ex_store) ''old001'' = Some ex_old \<and>
   map_of (urls ex_store) ''ghost'' = None \<and> getStatistics ''ghost'' ex_store = None \<and>
   getStatistics ''old001'' ex_store =
     Some \<lparr>s_shortcode = ''old001'', s_originalUrl = ''https://example.com/a'',
           s_createdAt = 0, s_expiresAt = 60000, s_totalClicks = 1,
           s_clicks = [\<lparr>v_timestamp = 10, v_referrer = ''Direct'', v_location = ''X'',
                        v_userAgent = Some ''ua''\<rparr>]\<rparr> \<and>
   fst (createShortURL ''https://example.com'' 30 JNull 0 ''id-5'' ex_g constructor)
     = Inr (ex_live\<lparr>id_uuid := ''id-5'', originalUrl := ''https://example.com''\<rparr>) \<and>
   getStatistics ''abcdef''
       (run (click_calls ''abcdef'' [(ex_click, 1, ''c1''), (ex_click, 2, ''c2''), (ex_click, 3, ''c3'')])
          (snd (createShortURL ''https://example.com'' 30 JNull 0 ''id-5'' ex_g constructor))) =
     Some \<lparr>s_shortcode = ''abcdef'', s_originalUrl = ''https://example.com'',
           s_createdAt = 0, s_expiresAt = 1800000, s_totalClicks = 3,
           s_clicks = [\<lparr>v_timestamp = 1, v_referrer = ''Direct'', v_location = ''X'',
                        v_userAgent = Some ''ua''\<rparr>,
                       \<lparr>v_timestamp = 2, v_referrer = ''Direct'', v_location = ''X'',
                        v_userAgent = Some ''ua''\<rparr>,
                       \<lparr>v_timestamp = 3, v_referrer = ''Direct'', v_location = ''X'',
                        v_userAgent = Some ''ua''\<rparr>]\<rparr>"
proof -
  have h1: "map_of (urls ex_store) ''old001'' = Some ex_old"
    and h2: "map_of (urls ex_store) ''ghost'' = None"
    by (simp_all add: ex_store_def)
  have h3: "fst (createShortURL ''https://example.com'' 30 JNull 0 ''id-5'' ex_g constructor)
     = Inr (ex_live\<lparr>id_uuid := ''id-5'', originalUrl := ''https://example.com''\<rparr>)"
    by code_simp
  have sc: "shortcode (ex_live\<lparr>id_uuid := ''id-5'', originalUrl := ''https://example.com''\<rparr>) = ''abcdef''"
    by (simp add: ex_live_def)
  have k: "clicks_of ex_store ''old001'' = [ex_hit ''id-3'' 10]"
    by (simp add: clicks_of_def ex_store_def)
  have a: "getStatistics ''ghost'' ex_store = None"
    using getStatistics_view [of "''ghost''" ex_store ex_old "[]"] h2 by simp
  have b: "getStatistics ''old001'' ex_store =
     Some \<lparr>s_shortcode = ''old001'', s_originalUrl = ''https://example.com/a'',
           s_createdAt = 0, s_expiresAt = 60000, s_totalClicks = 1,
           s_clicks = [\<lparr>v_timestamp = 10, v_referrer = ''Direct'', v_location = ''X'',
                        v_userAgent = Some ''ua''\<rparr>]\<rparr>"
    using getStatistics_view [of "''old001''" ex_store ex_old "[]"] h1
    by (simp add: k ex_old_def ex_hit_def click_view_of_def)
  have c: "getStatistics ''abcdef''
       (run (click_calls ''abcdef'' [(ex_click, 1, ''c1''), (ex_click, 2, ''c2''), (ex_click, 3, ''c3'')])
          (snd (createShortURL ''https://example.com'' 30 JNull 0 ''id-5'' ex_g constructor))) =
     Some \<lparr>s_shortcode = ''abcdef'', s_originalUrl = ''https://example.com'',
           s_createdAt = 0, s_expiresAt = 1800000, s_totalClicks = 3,
           s_clicks = map recorded_view [(ex_click, 1, ''c1''), (ex_click, 2, ''c2''), (ex_click, 3, ''c3'')]\<rparr>"
    using getStatistics_view [of "''abcdef''" constructor
        "ex_live\<lparr>id_uuid := ''id-5'', originalUrl := ''https://example.com''\<rparr>"
        "[(ex_click, 1, ''c1''), (ex_click, 2, ''c2''), (ex_click, 3, ''c3'')]"
        "''https://example.com''" 30 JNull 0 "''id-5''" ex_g] h3
    by (simp add: sc)
  have v: "map recorded_view [(ex_click, 1, ''c1''), (ex_click, 2, ''c2''), (ex_click, 3, ''c3'')]
            = [\<lparr>v_timestamp = 1, v_referrer = ''Direct'', v_location = ''X'',
                        v_userAgent = Some ''ua''\<rparr>,
                       \<lparr>v_timestamp = 2, v_referrer = ''Direct'', v_location = ''X'',
                        v_userAgent = Some ''ua''\<rparr>,
                       \<lparr>v_timestamp = 3, v_referrer = ''Direct'', v_location = ''X'',
                        v_userAgent = Some ''ua''\<rparr>]"
    by (simp add: recorded_view_def ex_click_def or_default_def truthy_def)
  show ?thesis
    using h1 h2 h3 a b c unfolding v by simp
qed

text \<open>
  Claim C7, amended. \<open>recordClick\<close> appends exactly one record to the end of the
  shortcode's click list, the list being created when the click map has none; it does
  not look at the URL map and leaves it and the lists of the other shortcodes as they
  are. The stored \<open>referrer\<close> is the given one, or \<open>Direct\<close> when the given one is absent
  or the empty string; the stored \<open>location\<close> is the given one, or \<open>Unknown\<close> when the
  given one is absent or the empty string.
\<close>

theorem recordClick_appends:
  "(let clickRecord =
          \<lparr>click_id = uuid, timestamp = now, ip = cd_ip clickData,
           userAgent = cd_userAgent clickData,
           referrer = (case cd_referrer clickData of None \<Rightarrow> ''Direct''
                       | Some r \<Rightarrow> if r = [] then ''Direct'' else r),
           location = (case cd_location clickData of None \<Rightarrow> ''Unknown''
                       | Some l \<Rightarrow> if l = [] then ''Unknown'' else l)\<rparr>;
        st' = snd (recordClick sc clickData now uuid st)
    in fst (recordClick sc clickData now uuid st) = clickRecord \<and>
       map_of (clicks st') sc = Some (clicks_of st sc @ [clickRecord]) \<and>
       (map_of (clicks st) sc = None \<longrightarrow> map_of (clicks st') sc = Some [clickRecord]) \<and>
       (sc' \<noteq> sc \<longrightarrow> map_of (clicks st') sc' = map_of (clicks st) sc') \<and>
       urls st' = urls st)"
  by (simp add: recordClick_def Let_def or_default_cases update_conv' clicks_of_def)

theorem recordClick_appends_witness:
  "map_of (urls ex_store) ''ghost'' = None \<and> map_of (urls ex_store) ''nokey'' = None \<and>
   map_of (clicks ex_store) ''nokey'' = None \<and>
   fst (recordClick ''ghost'' ex_click 30 ''id-6'' ex_store) = ex_hit ''id-6'' 30 \<and>
   map_of (clicks (snd (recordClick ''ghost'' ex_click 30 ''id-6'' ex_store))) ''ghost''
     = Some [ex_hit ''id-4'' 20, ex_hit ''id-6'' 30] \<and>
   map_of (clicks (snd (recordClick ''nokey'' ex_click 30 ''id-6'' ex_store))) ''nokey''
     = Some [ex_hit ''id-6'' 30] \<and>
   ''old001'' \<noteq> ''ghost'' \<and>
   map_of (clicks (snd (recordClick ''ghost'' ex_click 30 ''id-6'' ex_store))) ''old001''
     = Some [ex_hit ''id-3'' 10] \<and>
   urls (snd (recordClick ''ghost'' ex_click 30 ''id-6'' ex_store)) = urls ex_store"
proof -
  have h: "map_of (urls ex_store) ''ghost'' = None" "map_of (urls ex_store) ''nokey'' = None"
    "map_of (clicks ex_store) ''nokey'' = None"
    "map_of (clicks ex_store) ''old001'' = Some [ex_hit ''id-3'' 10]"
    "clicks_of ex_store ''ghost'' = [ex_hit ''id-4'' 20]"
    "clicks_of ex_store ''nokey'' = []"
    by (simp_all add: ex_store_def clicks_of_def)
  show ?thesis
    using h
      recordClick_appends [of "''id-6''" 30 ex_click "''ghost''" ex_store "''old001''"]
      recordClick_appends [of "''id-6''" 30 ex_click "''nokey''" ex_store "''old001''"]
    by (simp add: Let_def ex_click_def ex_hit_def)
qed

text \<open>
  The claim as stated fails for a referrer that is given and empty: the stored referrer
  is \<open>Direct\<close>, not the given one (and likewise for the location).
\<close>

theorem recordClick_appends_counterexample:
  "cd_referrer \<lparr>cd_ip = None, cd_userAgent = None, cd_referrer = Some '''',
                cd_location = Some ''''\<rparr> \<noteq> None \<and>
   referrer (fst (recordClick ''abcdef''
                    \<lparr>cd_ip = None, cd_userAgent = None, cd_referrer = Some '''',
                     cd_location = Some ''''\<rparr> 0 ''id-7'' ex_store))
     \<noteq> the (cd_referrer \<lparr>cd_ip = None, cd_userAgent = None, cd_referrer = Some '''',
                           cd_location = Some ''''\<rparr>) \<and>
   referrer (fst (recordClick ''abcdef''
                    \<lparr>cd_ip = None, cd_userAgent = None, cd_referrer = Some '''',
                     cd_location = Some ''''\<rparr> 0 ''id-7'' ex_store)) = ''Direct'' \<and>
   location (fst (recordClick ''abcdef''
                    \<lparr>cd_ip = None, cd_userAgent = None, cd_referrer = Some '''',
                     cd_location = Some ''''\<rparr> 0 ''id-7'' ex_store)) = ''Unknown''"
  by (simp add: recordClick_def Let_def or_default_def truthy_def)

text \<open>
  Claim C8. After any sequence of facade calls on a fresh registry (creations with or
  without custom shortcodes, resolves, click recordings, statistics, listings and
  cleanups, at any clock readings and with any random draws), no two records that are
  live at \<open>now\<close> hold the same shortcode; indeed no two records of the map do, expired
  or not.
\<close>

theorem live_shortcodes_distinct:
  "distinct (map shortcode (live_records now (run ops constructor))) \<and>
   distinct (map shortcode (map snd (urls (run ops constructor))))"
proof -
  have ok: "registry_ok (run ops constructor)"
    by (rule registry_ok_run [OF registry_ok_constructor])
  then have d: "distinct (map shortcode (map snd (urls (run ops constructor))))"
    by (simp only: registry_ok_shortcodes [OF ok]) (simp add: registry_ok_def)
  then show ?thesis
    unfolding live_records_def by (simp add: distinct_map_filter)
qed

theorem live_shortcodes_distinct_witness:
  "run ex_ops constructor = ex_store \<and>
   map shortcode (live_records 60001 (run ex_ops constructor)) = [''abcdef''] \<and>
   map shortcode (map snd (urls (run ex_ops constructor))) = [''old001'', ''abcdef''] \<and>
   distinct (map shortcode (live_records 60001 (run ex_ops constructor))) \<and>
   distinct (map shortcode (map snd (urls (run ex_ops constructor))))"
  using live_shortcodes_distinct [of 60001 ex_ops]
  by (simp add: ex_run) (simp add: ex_store_def live_records_def expired_def ex_old_def ex_live_def)

text \<open>
  Claim C9. In any registry reached by facade calls, for a record that is expired at
  \<open>now\<close> and still in the map: \<open>getURLData\<close> returns absent for its shortcode, yet
  \<open>createShortURL\<close> with that shortcode as custom shortcode raises the already-exists
  error (at any clock reading) and changes nothing; after \<open>cleanupExpiredURLs\<close> at \<open>now\<close>
  the same creation succeeds (given a valid expiry date) and stores the new record under
  that shortcode.
\<close>

theorem expired_shortcode_blocks_custom_create:
  assumes "map_of (urls (run ops constructor)) sc = Some urlData"
    and "now > expiresAt urlData"
  shows "shortcode urlData = sc \<and>
         getURLData now sc (run ops constructor) = None \<and>
         createShortURL url minutes (JStr sc) t uuid g (run ops constructor)
           = (Inl ShortcodeAlreadyExists, run ops constructor) \<and>
         (valid_time (t + minutes * 60 * 1000) \<longrightarrow>
            (case createShortURL url minutes (JStr sc) t uuid g
                    (fst (cleanupExpiredURLs now (run ops constructor))) of
               (Inl e, st') \<Rightarrow> False
             | (Inr r, st') \<Rightarrow> shortcode r = sc \<and> map_of (urls st') sc = Some r))"
proof -
  let ?st = "run ops constructor"
  have ok: "registry_ok ?st"
    by (rule registry_ok_run [OF registry_ok_constructor])
  have mem: "(sc, urlData) \<in> set (urls ?st)" using assms(1) by (rule map_of_SomeD)
  then have key: "shortcode urlData = sc" and valid: "isValidShortcode (JStr sc)"
    using ok by (auto simp: registry_ok_def list_all_iff)
  then have ne: "js_truthy (JStr sc)" by (auto simp: isValidShortcode_iff js_truthy_def)
  have a: "getURLData now sc ?st = None"
    using assms by (simp add: getURLData_def)
  have b: "createShortURL url minutes (JStr sc) t uuid g ?st = (Inl ShortcodeAlreadyExists, ?st)"
    using assms(1) valid ne
    by (simp add: createShortURL_def shortcodeExists_def string_value_def)
  have gone: "map_of (urls (fst (cleanupExpiredURLs now ?st))) sc = None"
    using assms by (rule cleanup_removes_expired)
  have c: "valid_time (t + minutes * 60 * 1000) \<longrightarrow>
            (case createShortURL url minutes (JStr sc) t uuid g
                    (fst (cleanupExpiredURLs now ?st)) of
               (Inl e, st') \<Rightarrow> False
             | (Inr r, st') \<Rightarrow> shortcode r = sc \<and> map_of (urls st') sc = Some r)"
    using gone valid ne
    by (simp add: createShortURL_def shortcodeExists_def string_value_def Let_def update_conv')
  show ?thesis using key a b c by simp
qed

theorem expired_shortcode_blocks_custom_create_witness:
  "map_of (urls (run ex_ops constructor)) ''old001'' = Some ex_old \<and>
   60001 > expiresAt ex_old \<and>
   getURLData 60001 ''old001'' (run ex_ops constructor) = None \<and>
   createShortURL ''https://example.com'' 30 (JStr ''old001'') 60001 ''id-5'' ex_g
       (run ex_ops constructor)
     = (Inl ShortcodeAlreadyExists, run ex_ops constructor) \<and>
   valid_time (60001 + 30 * 60 * 1000) \<and>
   (case createShortURL ''https://example.com'' 30 (JStr ''old001'') 60001 ''id-5'' ex_g
           (fst (cleanupExpiredURLs 60001 (run ex_ops constructor))) of
      (Inl e, st') \<Rightarrow> False
    | (Inr r, st') \<Rightarrow> shortcode r = ''old001'' \<and> map_of (urls st') ''old001'' = Some r)"
proof -
  have h1: "map_of (urls (run ex_ops constructor)) ''old001'' = Some ex_old"
    by (simp add: ex_run ex_store_def)
  have h2: "60001 > expiresAt ex_old" by (simp add: ex_old_def)
  have h3: "valid_time (60001 + 30 * 60 * 1000)" by (simp add: valid_time_def)
  show ?thesis
    using h1 h2 h3
      expired_shortcode_blocks_custom_create [OF h1 h2, of "''https://example.com''" 30 60001 "''id-5''" ex_g]
    by simp
qed

text \<open>
  Claim C10. \<open>cleanupExpiredURLs\<close> leaves the click list of every shortcode that has no
  record in the URL map as it is, in one pass and in any number of passes at any clock
  readings: a click recorded for such a shortcode stays at the end of its list. More
  generally, through any sequence of facade calls during which the shortcode never has a
  record in the URL map, its click list only grows at the end. On a map with distinct
  keys, a record that is not expired at \<open>now\<close> and its click list are left as they are.
\<close>

theorem cleanup_frame:
  "(map_of (urls st) sc = None \<longrightarrow>
      map_of (clicks (fst (cleanupExpiredURLs now st))) sc = map_of (clicks st) sc \<and>
      map_of (clicks (run (map Cleanup nows) st)) sc = map_of (clicks st) sc \<and>
      clicks_of (run (map Cleanup nows) (snd (recordClick sc clickData t uuid st))) sc
        = clicks_of st sc @ [fst (recordClick sc clickData t uuid st)]) \<and>
   (never_created sc ops st \<longrightarrow> prefix (clicks_of st sc) (clicks_of (run ops st) sc)) \<and>
   (distinct (map fst (urls st)) \<and> map_of (urls st) sc = Some urlData \<and>
    \<not> now > expiresAt urlData \<longrightarrow>
      map_of (urls (fst (cleanupExpiredURLs now st))) sc = Some urlData \<and>
      map_of (clicks (fst (cleanupExpiredURLs now st))) sc = map_of (clicks st) sc)"
proof -
  have c: "never_created sc ops st \<longrightarrow> prefix (clicks_of st sc) (clicks_of (run ops st) sc)"
    by (simp add: never_created_keeps_clicks)
  have a: "map_of (urls st) sc = None \<longrightarrow>
      map_of (clicks (fst (cleanupExpiredURLs now st))) sc = map_of (clicks st) sc \<and>
      map_of (clicks (run (map Cleanup nows) st)) sc = map_of (clicks st) sc \<and>
      clicks_of (run (map Cleanup nows) (snd (recordClick sc clickData t uuid st))) sc
        = clicks_of st sc @ [fst (recordClick sc clickData t uuid st)]"
  proof
    assume m: "map_of (urls st) sc = None"
    let ?st1 = "snd (recordClick sc clickData t uuid st)"
    have m1: "map_of (urls ?st1) sc = None" using m recordClick_effect [of sc clickData t uuid st] by simp
    have 1: "map_of (clicks (fst (cleanupExpiredURLs now st))) sc = map_of (clicks st) sc"
      using m by (intro cleanup_clicks_frame absent_not_expired_key)
    have 2: "map_of (clicks (run (map Cleanup nows) st)) sc = map_of (clicks st) sc"
      using cleanup_passes_frame [OF m] by simp
    have "clicks_of (run (map Cleanup nows) ?st1) sc = clicks_of ?st1 sc"
      using cleanup_passes_frame [OF m1, of nows] by (simp add: clicks_of_def)
    then have 3: "clicks_of (run (map Cleanup nows) ?st1) sc
        = clicks_of st sc @ [fst (recordClick sc clickData t uuid st)]"
      using recordClick_effect [of sc clickData t uuid st] by simp
    show "map_of (clicks (fst (cleanupExpiredURLs now st))) sc = map_of (clicks st) sc \<and>
      map_of (clicks (run (map Cleanup nows) st)) sc = map_of (clicks st) sc \<and>
      clicks_of (run (map Cleanup nows) ?st1) sc
        = clicks_of st sc @ [fst (recordClick sc clickData t uuid st)]"
      using 1 2 3 by simp
  qed
  have b: "distinct (map fst (urls st)) \<and> map_of (urls st) sc = Some urlData \<and>
    \<not> now > expiresAt urlData \<longrightarrow>
      map_of (urls (fst (cleanupExpiredURLs now st))) sc = Some urlData \<and>
      map_of (clicks (fst (cleanupExpiredURLs now st))) sc = map_of (clicks st) sc"
  proof (intro impI, elim conjE)
    assume d: "distinct (map fst (urls st))" and m: "map_of (urls st) sc = Some urlData"
      and l: "\<not> now > expiresAt urlData"
    have mem: "(sc, urlData) \<in> set (urls st)" using m by (rule map_of_SomeD)
    have k: "sc \<notin> set (expired_keys now (urls st))"
      using expired_key_iff [OF d mem, of now] l by (simp add: expired_def)
    show "map_of (urls (fst (cleanupExpiredURLs now st))) sc = Some urlData \<and>
      map_of (clicks (fst (cleanupExpiredURLs now st))) sc = map_of (clicks st) sc"
      using cleanup_urls_frame [OF k] cleanup_clicks_frame [OF k] m by simp
  qed
  show ?thesis by (rule conjI [OF a conjI [OF c b]])
qed

theorem cleanup_frame_witness:
  "map_of (urls ex_store) ''ghost'' = None \<and>
   map_of (clicks (fst (cleanupExpiredURLs 60001 ex_store))) ''ghost'' = Some [ex_hit ''id-4'' 20] \<and>
   map_of (clicks (run (map Cleanup [60001, 1800001, 9999999]) ex_store)) ''ghost''
     = Some [ex_hit ''id-4'' 20] \<and>
   clicks_of (run (map Cleanup [60001, 1800001, 9999999])
                (snd (recordClick ''ghost'' ex_click 30 ''id-6'' ex_store))) ''ghost''
     = [ex_hit ''id-4'' 20, ex_hit ''id-6'' 30] \<and>
   urls (run (map Cleanup [60001, 1800001, 9999999]) ex_store) = [] \<and>
   never_created ''ghost''
     [Cleanup 60001, Click ''ghost'' ex_click 70000 ''id-8'',
      Create ''https://example.com/c'' 5 (JStr ''zzz'') 70001 ''id-9'' ex_g, Cleanup 1800001]
     ex_store \<and>
   prefix [ex_hit ''id-4'' 20]
     (clicks_of (run [Cleanup 60001, Click ''ghost'' ex_click 70000 ''id-8'',
                      Create ''https://example.com/c'' 5 (JStr ''zzz'') 70001 ''id-9'' ex_g,
                      Cleanup 1800001] ex_store) ''ghost'') \<and>
   distinct (map fst (urls ex_store)) \<and> map_of (urls ex_store) ''abcdef'' = Some ex_live \<and>
   \<not> 60001 > expiresAt ex_live \<and>
   map_of (urls (fst (cleanupExpiredURLs 60001 ex_store))) ''abcdef'' = Some ex_live \<and>
   map_of (clicks (fst (cleanupExpiredURLs 60001 ex_store))) ''abcdef'' = Some []"
proof -
  have h1: "map_of (urls ex_store) ''ghost'' = None" by (simp add: ex_store_def)
  have h2: "distinct (map fst (urls ex_store))" "map_of (urls ex_store) ''abcdef'' = Some ex_live"
    "\<not> 60001 > expiresAt ex_live"
    by (simp_all add: ex_store_def ex_live_def)
  have h3: "never_created ''ghost''
     [Cleanup 60001, Click ''ghost'' ex_click 70000 ''id-8'',
      Create ''https://example.com/c'' 5 (JStr ''zzz'') 70001 ''id-9'' ex_g, Cleanup 1800001]
     ex_store"
    by code_simp
  have c: "map_of (clicks ex_store) ''ghost'' = Some [ex_hit ''id-4'' 20]"
    "map_of (clicks ex_store) ''abcdef'' = Some []"
    "clicks_of ex_store ''ghost'' = [ex_hit ''id-4'' 20]"
    "fst (recordClick ''ghost'' ex_click 30 ''id-6'' ex_store) = ex_hit ''id-6'' 30"
    by (simp_all add: ex_store_def clicks_of_def recordClick_def ex_click_def ex_hit_def
        or_default_def truthy_def Let_def)
  have e: "urls (run (map Cleanup [60001, 1800001, 9999999]) ex_store) = []"
    by code_simp
  show ?thesis
    using h1 h2 h3 e
      cleanup_frame [where st = ex_store and sc = "''ghost''" and now = 60001
        and nows = "[60001, 1800001, 9999999]" and clickData = ex_click and t = 30
        and uuid = "''id-6''" and urlData = ex_live
        and ops = "[Cleanup 60001, Click ''ghost'' ex_click 70000 ''id-8'',
                    Create ''https://example.com/c'' 5 (JStr ''zzz'') 70001 ''id-9'' ex_g,
                    Cleanup 1800001]"]
      cleanup_frame [where st = ex_store and sc = "''abcdef''" and now = 60001
        and nows = "[]" and clickData = ex_click and t = 30
        and uuid = "''id-6''" and urlData = ex_live and ops = "[]"]
    by (simp add: c)
qed

end
